theory Spec2Isabelle
  imports Main
begin

section \<open>The browser objects used by the call component\<close>

text \<open>
  The call component (VideoCallModal.tsx) drives three browser interfaces: media capture
  (getUserMedia, getDisplayMedia, MediaStreamTrack), RTCPeerConnection with its senders,
  and the console and toast notifications. They are modelled as an explicit store: tracks
  and connections live in lists, and an object is named by its position. The store also
  keeps the trace of the calls the component makes on its collaborators, in order.
\<close>

datatype kind = Audio | Video

datatype source = Microphone | Camera | Screen

type_synonym track_id = nat
type_synonym pc_id = nat

text \<open>A MediaStream is the list of its tracks, in the order of getTracks().\<close>

type_synonym stream = "track_id list"

text \<open>An RTCRtpSender is named by its connection and its position in getSenders().\<close>

type_synonym sender_ref = "pc_id \<times> nat"

text \<open>Chat.tsx mounts two instances of the component: one for video, one for audio calls.\<close>

datatype target = VideoModal | AudioModal

text \<open>
  The only handler the component installs on a track is the onended function of
  toggleScreenShare (lines 123 to 129). It closes over the sender found when sharing
  started and over the localStream of the render in which the button was clicked.
\<close>

datatype onended_handler = RevertToCamera target "sender_ref option" "stream option"

record track =
  kind :: kind
  source :: source
  enabled :: bool
  ended :: bool
  onended :: "onended_handler option"

record conn =
  closed :: bool
  senders :: "track_id option list"

text \<open>
  The messages of the signaling channel the specification describes. The source has no
  such channel; the type is here to state what the component does when one arrives and
  that it never sends one.
\<close>

datatype signal = Offer nat | Answer nat | Candidate nat | Hangup

text \<open>
  The calls the component can make. The last three are the calls the specification
  expects (forwarding over the signaling relay, applying a remote description, applying
  a remote candidate); no function of the source makes them.
\<close>

datatype effect =
    GetUserMedia bool bool
  | GetDisplayMedia
  | NewPeerConnection pc_id
  | AddTrack pc_id track_id
  | ReplaceTrack sender_ref track_id
  | StopTrack track_id
  | ClosePc pc_id
  | ConsoleLog nat
  | ConsoleError
  | Toast string string
  | SignalSend signal
  | SetRemoteDescription pc_id nat
  | AddIceCandidate pc_id nat

record world =
  tracks :: "track list"
  conns :: "conn list"
  trace :: "effect list"

datatype outcome = Granted | Denied

datatype error = TypeError

definition emit :: "effect list \<Rightarrow> world \<Rightarrow> world" where
  "emit es w = w\<lparr>trace := trace w @ es\<rparr>"

definition track_kind :: "world \<Rightarrow> track_id \<Rightarrow> kind option" where
  "track_kind w t = (if t < length (tracks w) then Some (kind (tracks w ! t)) else None)"

definition getAudioTracks :: "world \<Rightarrow> stream \<Rightarrow> track_id list" where
  "getAudioTracks w s = filter (\<lambda>t. track_kind w t = Some Audio) s"

definition getVideoTracks :: "world \<Rightarrow> stream \<Rightarrow> track_id list" where
  "getVideoTracks w s = filter (\<lambda>t. track_kind w t = Some Video) s"

text \<open>The element [0] of a JavaScript array: undefined when the array is empty.\<close>

fun first :: "'a list \<Rightarrow> 'a option" where
  "first [] = None"
| "first (x # xs) = Some x"

definition new_track :: "kind \<Rightarrow> source \<Rightarrow> track" where
  "new_track k s = \<lparr>kind = k, source = s, enabled = True, ended = False, onended = None\<rparr>"

text \<open>
  A granted getUserMedia({video, audio}) returns a stream with one live, enabled track
  per requested kind; the tracks are new objects. The audio track is listed first; no
  statement below depends on that order.
\<close>

definition user_media :: "bool \<Rightarrow> bool \<Rightarrow> world \<Rightarrow> stream \<times> world" where
  "user_media video audio w =
     (let new = (if audio then [new_track Audio Microphone] else []) @
                (if video then [new_track Video Camera] else []);
          n = length (tracks w)
      in ([n ..< n + length new], w\<lparr>tracks := tracks w @ new\<rparr>))"

text \<open>A granted getDisplayMedia({video: true}) returns one new video track.\<close>

definition display_media :: "world \<Rightarrow> track_id \<times> world" where
  "display_media w = (length (tracks w), w\<lparr>tracks := tracks w @ [new_track Video Screen]\<rparr>)"

text \<open>track.stop(): the track ends; a track that has ended stays so.\<close>

definition track_stop :: "track_id \<Rightarrow> world \<Rightarrow> world" where
  "track_stop t w =
     emit [StopTrack t]
       (if t < length (tracks w)
        then w\<lparr>tracks := (tracks w)[t := (tracks w ! t)\<lparr>ended := True\<rparr>]\<rparr>
        else w)"

text \<open>pc.close(): the connection is closed; closing a closed connection changes nothing.\<close>

definition pc_close :: "pc_id \<Rightarrow> world \<Rightarrow> world" where
  "pc_close p w =
     emit [ClosePc p]
       (if p < length (conns w)
        then w\<lparr>conns := (conns w)[p := (conns w ! p)\<lparr>closed := True\<rparr>]\<rparr>
        else w)"

text \<open>new RTCPeerConnection(...): a new open connection without senders.\<close>

definition new_pc :: "world \<Rightarrow> pc_id \<times> world" where
  "new_pc w =
     (length (conns w),
      emit [NewPeerConnection (length (conns w))]
        (w\<lparr>conns := conns w @ [\<lparr>closed = False, senders = []\<rparr>]\<rparr>))"

text \<open>pc.addTrack(track, stream): one more sender, carrying the track.\<close>

definition pc_addTrack :: "pc_id \<Rightarrow> track_id \<Rightarrow> world \<Rightarrow> world" where
  "pc_addTrack p t w =
     emit [AddTrack p t]
       (if p < length (conns w)
        then w\<lparr>conns := (conns w)[p := (conns w ! p)\<lparr>senders := senders (conns w ! p) @ [Some t]\<rparr>]\<rparr>
        else w)"

text \<open>
  sender.replaceTrack(track): the sender carries the new track in place of the old one.
  On a closed connection the returned promise is rejected and nothing changes; the
  component does not await the promise, so the rejection reaches no catch block.
\<close>

definition replaceTrack :: "sender_ref \<Rightarrow> track_id \<Rightarrow> world \<Rightarrow> world" where
  "replaceTrack s t w =
     (case s of (p, i) \<Rightarrow>
        emit [ReplaceTrack (p, i) t]
          (if p < length (conns w) \<and> \<not> closed (conns w ! p) \<and> i < length (senders (conns w ! p))
           then w\<lparr>conns := (conns w)[p := (conns w ! p)\<lparr>senders := (senders (conns w ! p))[i := Some t]\<rparr>]\<rparr>
           else w))"

text \<open>The test s.track?.kind === 'video' on a sender.\<close>

definition is_video :: "world \<Rightarrow> track_id option \<Rightarrow> bool" where
  "is_video w s = (case s of None \<Rightarrow> False | Some t \<Rightarrow> track_kind w t = Some Video)"

fun find_index :: "('a \<Rightarrow> bool) \<Rightarrow> 'a list \<Rightarrow> nat option" where
  "find_index P [] = None"
| "find_index P (x # xs) = (if P x then Some 0 else map_option Suc (find_index P xs))"

text \<open>peerConnection?.getSenders().find((s) => s.track?.kind === 'video')\<close>

definition find_video_sender :: "world \<Rightarrow> pc_id option \<Rightarrow> sender_ref option" where
  "find_video_sender w pc =
     (case pc of
        None \<Rightarrow> None
      | Some p \<Rightarrow>
          if p < length (conns w)
          then map_option (\<lambda>i. (p, i)) (find_index (is_video w) (senders (conns w ! p)))
          else None)"

text \<open>localStream?.getVideoTracks()[0]\<close>

definition first_video_track :: "world \<Rightarrow> stream option \<Rightarrow> track_id option" where
  "first_video_track w ls = (case ls of None \<Rightarrow> None | Some s \<Rightarrow> first (getVideoTracks w s))"

section \<open>The component\<close>

text \<open>
  The functions of a React component close over the state of the render that created
  them. A click handler is the one of the latest render, so it reads the current state.
  The cleanup function of the effect and the code behind an await run later and read the
  values of the render that created them. For the two state variables read that late,
  localStream and peerConnection, the captured values are kept as a closure. State
  updates made while one event is handled are applied together before the next event.
\<close>

record closure =
  c_localStream :: "stream option"
  c_peerConnection :: "pc_id option"

text \<open>
  The props isOpen and isVideoCall, the six state variables of lines 15 to 20, and the
  control state React and the pending promises hold for the instance: the closure of the
  cleanup function returned by the last run of the effect (lines 26 to 34), the
  constraints of the getUserMedia calls that have not settled, and the closures of the
  toggleScreenShare calls waiting for getDisplayMedia. The two video elements only
  display the streams and are left out.
\<close>

record modal =
  isOpen :: bool
  isVideoCall :: bool
  localStream :: "stream option"
  remoteStream :: "nat option"
  isMuted :: bool
  isVideoEnabled :: bool
  isScreenSharing :: bool
  peerConnection :: "pc_id option"
  effectCleanup :: closure
  pendingMedia :: "(bool \<times> bool) list"
  pendingScreen :: "closure list"

definition closure_of :: "modal \<Rightarrow> closure" where
  "closure_of m = \<lparr>c_localStream = localStream m, c_peerConnection = peerConnection m\<rparr>"

text \<open>initializeCall up to its await (lines 36 to 41): getUserMedia is called.\<close>

definition initializeCall_begin :: "modal \<times> world \<Rightarrow> modal \<times> world" where
  "initializeCall_begin mw =
     (case mw of (m, w) \<Rightarrow>
        (m\<lparr>pendingMedia := pendingMedia m @ [(isVideoCall m, True)]\<rparr>,
         emit [GetUserMedia (isVideoCall m) True] w))"

text \<open>
  initializeCall after the await, for the request with constraints c: lines 43 to 72
  when the promise is fulfilled, the catch block (lines 73 to 80) when it is rejected.
\<close>

definition initializeCall_resume :: "bool \<times> bool \<Rightarrow> outcome \<Rightarrow> modal \<times> world \<Rightarrow> modal \<times> world" where
  "initializeCall_resume c out mw =
     (case mw of (m, w) \<Rightarrow>
        (case out of
           Denied \<Rightarrow>
             (m, emit [ConsoleError, Toast ''Error'' ''Failed to access camera/microphone''] w)
         | Granted \<Rightarrow>
             (let (s, w1) = user_media (fst c) (snd c) w;
                  (p, w2) = new_pc w1;
                  w3 = fold (pc_addTrack p) s w2
              in (m\<lparr>localStream := Some s, peerConnection := Some p\<rparr>, w3))))"

text \<open>pc.ontrack (lines 59 to 64)\<close>

definition ontrack :: "nat list \<Rightarrow> modal \<times> world \<Rightarrow> modal \<times> world" where
  "ontrack streams mw = (case mw of (m, w) \<Rightarrow> (m\<lparr>remoteStream := first streams\<rparr>, w))"

text \<open>pc.onicecandidate (lines 66 to 70)\<close>

definition onicecandidate :: "nat option \<Rightarrow> modal \<times> world \<Rightarrow> modal \<times> world" where
  "onicecandidate candidate mw =
     (case mw of (m, w) \<Rightarrow>
        (case candidate of None \<Rightarrow> (m, w) | Some c \<Rightarrow> (m, emit [ConsoleLog c] w)))"

text \<open>
  cleanup (lines 83 to 89), with the values of localStream and peerConnection its
  closure holds. It has no throw: both reads are guarded by the optional chaining.
\<close>

definition cleanup_closure :: "closure \<Rightarrow> modal \<times> world \<Rightarrow> modal \<times> world" where
  "cleanup_closure c mw =
     (case mw of (m, w) \<Rightarrow>
        (let w1 = (case c_localStream c of None \<Rightarrow> w | Some s \<Rightarrow> fold track_stop s w);
             w2 = (case c_peerConnection c of None \<Rightarrow> w1 | Some p \<Rightarrow> pc_close p w1)
         in (m\<lparr>localStream := None, remoteStream := None, peerConnection := None\<rparr>, w2)))"

text \<open>cleanup as the functions of the current render call it.\<close>

definition cleanup :: "modal \<times> world \<Rightarrow> modal \<times> world" where
  "cleanup mw = cleanup_closure (closure_of (fst mw)) mw"

text \<open>
  toggleMute (lines 91 to 97). Reading enabled of an undefined track raises a
  TypeError before anything is changed.
\<close>

definition toggleMute :: "modal \<times> world \<Rightarrow> error + modal \<times> world" where
  "toggleMute mw =
     (case mw of (m, w) \<Rightarrow>
        (case localStream m of
           None \<Rightarrow> Inr (m, w)
         | Some s \<Rightarrow>
             (case first (getAudioTracks w s) of
                None \<Rightarrow> Inl TypeError
              | Some a \<Rightarrow>
                  (let e = \<not> enabled (tracks w ! a)
                   in Inr (m\<lparr>isMuted := \<not> e\<rparr>,
                           w\<lparr>tracks := (tracks w)[a := (tracks w ! a)\<lparr>enabled := e\<rparr>]\<rparr>)))))"

text \<open>toggleVideo (lines 99 to 105)\<close>

definition toggleVideo :: "modal \<times> world \<Rightarrow> error + modal \<times> world" where
  "toggleVideo mw =
     (case mw of (m, w) \<Rightarrow>
        (case localStream m of
           None \<Rightarrow> Inr (m, w)
         | Some s \<Rightarrow>
             (case first (getVideoTracks w s) of
                None \<Rightarrow> Inl TypeError
              | Some v \<Rightarrow>
                  (let e = \<not> enabled (tracks w ! v)
                   in Inr (m\<lparr>isVideoEnabled := e\<rparr>,
                           w\<lparr>tracks := (tracks w)[v := (tracks w ! v)\<lparr>enabled := e\<rparr>]\<rparr>)))))"

text \<open>
  toggleScreenShare (lines 107 to 151) up to its first suspension. When the screen is
  not shared it calls getDisplayMedia and waits; otherwise it runs the else branch
  (lines 133 to 141) to its end.
\<close>

definition toggleScreenShare_begin :: "modal \<times> world \<Rightarrow> modal \<times> world" where
  "toggleScreenShare_begin mw =
     (case mw of (m, w) \<Rightarrow>
        if \<not> isScreenSharing m
        then (m\<lparr>pendingScreen := pendingScreen m @ [closure_of m]\<rparr>, emit [GetDisplayMedia] w)
        else
          (let w1 = (case (first_video_track w (localStream m), find_video_sender w (peerConnection m)) of
                       (Some v, Some s) \<Rightarrow> replaceTrack s v w
                     | _ \<Rightarrow> w)
           in (m\<lparr>isScreenSharing := False\<rparr>, w1)))"

text \<open>
  toggleScreenShare after the await (lines 114 to 131), with the closure c of the call;
  the catch block (lines 143 to 150) when getDisplayMedia is rejected.
\<close>

definition toggleScreenShare_resume :: "target \<Rightarrow> closure \<Rightarrow> outcome \<Rightarrow> modal \<times> world \<Rightarrow> modal \<times> world" where
  "toggleScreenShare_resume tg c out mw =
     (case mw of (m, w) \<Rightarrow>
        (case out of
           Denied \<Rightarrow> (m, emit [ConsoleError, Toast ''Error'' ''Failed to share screen''] w)
         | Granted \<Rightarrow>
             (let (v, w1) = display_media w;
                  sender = find_video_sender w1 (c_peerConnection c);
                  w2 = (case sender of None \<Rightarrow> w1 | Some s \<Rightarrow> replaceTrack s v w1);
                  w3 = w2\<lparr>tracks := (tracks w2)[v := (tracks w2 ! v)\<lparr>onended := Some (RevertToCamera tg sender (c_localStream c))\<rparr>]\<rparr>
              in (m\<lparr>isScreenSharing := True\<rparr>, w3))))"

text \<open>The onended function of lines 123 to 129, with the values it closed over.\<close>

definition screen_ended :: "sender_ref option \<Rightarrow> stream option \<Rightarrow> modal \<times> world \<Rightarrow> modal \<times> world" where
  "screen_ended sender ls mw =
     (case mw of (m, w) \<Rightarrow>
        (let w1 = (case (first_video_track w ls, sender) of
                     (Some v, Some s) \<Rightarrow> replaceTrack s v w
                   | _ \<Rightarrow> w)
         in (m\<lparr>isScreenSharing := False\<rparr>, w1)))"

text \<open>
  A change of the prop isOpen re-runs the effect of lines 26 to 34: React first calls
  the cleanup function the previous run returned, with the closure of that earlier
  render, then runs the effect body, which starts initializeCall when the modal has been
  opened. The cleanup function returned now closes over the state of the render in which
  the effect runs, that is the state before either of the two has changed it.
\<close>

definition set_isOpen :: "bool \<Rightarrow> modal \<times> world \<Rightarrow> modal \<times> world" where
  "set_isOpen b mw =
     (case mw of (m, w) \<Rightarrow>
        if isOpen m = b then (m, w)
        else
          (let c = closure_of m;
               mw1 = cleanup_closure (effectCleanup m) (m\<lparr>isOpen := b\<rparr>, w);
               (m2, w2) = (if b then initializeCall_begin mw1 else mw1)
           in (m2\<lparr>effectCleanup := c\<rparr>, w2)))"

text \<open>
  endCall (lines 153 to 156): cleanup, then onClose, which makes the parent set the
  open flag of the instance to false.
\<close>

definition endCall :: "modal \<times> world \<Rightarrow> modal \<times> world" where
  "endCall mw = set_isOpen False (cleanup mw)"

section \<open>The page\<close>

text \<open>
  Chat.tsx (lines 84 to 99) renders the two instances side by side, each with its own
  open flag; both share the browser. A room stays selected, so both instances stay
  mounted.
\<close>

record page =
  videoModal :: modal
  audioModal :: modal
  env :: world

definition get_modal :: "target \<Rightarrow> page \<Rightarrow> modal" where
  "get_modal tg pg = (case tg of VideoModal \<Rightarrow> videoModal pg | AudioModal \<Rightarrow> audioModal pg)"

definition put :: "target \<Rightarrow> modal \<times> world \<Rightarrow> page \<Rightarrow> page" where
  "put tg mw pg =
     (case tg of
        VideoModal \<Rightarrow> pg\<lparr>videoModal := fst mw, env := snd mw\<rparr>
      | AudioModal \<Rightarrow> pg\<lparr>audioModal := fst mw, env := snd mw\<rparr>)"

definition on_modal :: "target \<Rightarrow> (modal \<times> world \<Rightarrow> modal \<times> world) \<Rightarrow> page \<Rightarrow> page" where
  "on_modal tg f pg = put tg (f (get_modal tg pg, env pg)) pg"

text \<open>An exception that leaves a click handler is reported by the browser; the state stays.\<close>

definition try_modal :: "target \<Rightarrow> (modal \<times> world \<Rightarrow> error + modal \<times> world) \<Rightarrow> page \<Rightarrow> page" where
  "try_modal tg f pg =
     (case f (get_modal tg pg, env pg) of Inl e \<Rightarrow> pg | Inr mw \<Rightarrow> put tg mw pg)"

datatype event =
    ClickCall target
  | Dismiss target
  | MediaSettled target outcome
  | ScreenSettled target outcome
  | RemoteTrack target "nat list"
  | IceCandidate target "nat option"
  | ClickMute target
  | ClickVideo target
  | ClickScreenShare target
  | ClickHangUp target
  | ScreenCaptureEnded track_id
  | SignalArrives signal

text \<open>
  One event, handled to its end. The video and screen-share buttons are rendered only
  when isVideoCall holds (lines 206 to 226). Pending promises of an instance settle in
  the order of their calls. A capture that ends fires the ended event of its track once.
  No function of the component is subscribed to a signaling channel, so a signaling
  message that reaches the client runs no code of it.
\<close>

definition step :: "event \<Rightarrow> page \<Rightarrow> page" where
  "step e pg =
     (case e of
        ClickCall tg \<Rightarrow> on_modal tg (set_isOpen True) pg
      | Dismiss tg \<Rightarrow> on_modal tg (set_isOpen False) pg
      | MediaSettled tg out \<Rightarrow>
          (case pendingMedia (get_modal tg pg) of
             [] \<Rightarrow> pg
           | c # cs \<Rightarrow>
               on_modal tg (\<lambda>mw. initializeCall_resume c out ((fst mw)\<lparr>pendingMedia := cs\<rparr>, snd mw)) pg)
      | ScreenSettled tg out \<Rightarrow>
          (case pendingScreen (get_modal tg pg) of
             [] \<Rightarrow> pg
           | c # cs \<Rightarrow>
               on_modal tg (\<lambda>mw. toggleScreenShare_resume tg c out ((fst mw)\<lparr>pendingScreen := cs\<rparr>, snd mw)) pg)
      | RemoteTrack tg streams \<Rightarrow> on_modal tg (ontrack streams) pg
      | IceCandidate tg candidate \<Rightarrow> on_modal tg (onicecandidate candidate) pg
      | ClickMute tg \<Rightarrow> try_modal tg toggleMute pg
      | ClickVideo tg \<Rightarrow> (if isVideoCall (get_modal tg pg) then try_modal tg toggleVideo pg else pg)
      | ClickScreenShare tg \<Rightarrow>
          (if isVideoCall (get_modal tg pg) then on_modal tg toggleScreenShare_begin pg else pg)
      | ClickHangUp tg \<Rightarrow> on_modal tg endCall pg
      | ScreenCaptureEnded v \<Rightarrow>
          (if v < length (tracks (env pg)) \<and> source (tracks (env pg) ! v) = Screen \<and> \<not> ended (tracks (env pg) ! v)
           then
             (let w = env pg;
                  pg1 = pg\<lparr>env := w\<lparr>tracks := (tracks w)[v := (tracks w ! v)\<lparr>ended := True\<rparr>]\<rparr>\<rparr>
              in (case onended (tracks w ! v) of
                    None \<Rightarrow> pg1
                  | Some (RevertToCamera tg sender ls) \<Rightarrow> on_modal tg (screen_ended sender ls) pg1))
           else pg)
      | SignalArrives msg \<Rightarrow> pg)"

definition init_modal :: "bool \<Rightarrow> modal" where
  "init_modal v =
     \<lparr>isOpen = False, isVideoCall = v, localStream = None, remoteStream = None,
      isMuted = False, isVideoEnabled = v, isScreenSharing = False, peerConnection = None,
      effectCleanup = \<lparr>c_localStream = None, c_peerConnection = None\<rparr>,
      pendingMedia = [], pendingScreen = []\<rparr>"

definition init_page :: page where
  "init_page =
     \<lparr>videoModal = init_modal True, audioModal = init_modal False,
      env = \<lparr>tracks = [], conns = [], trace = []\<rparr>\<rparr>"

fun run :: "event list \<Rightarrow> page \<Rightarrow> page" where
  "run [] pg = pg"
| "run (e # es) pg = run es (step e pg)"

inductive reachable :: "page \<Rightarrow> bool" where
  reachable_init: "reachable init_page"
| reachable_step: "reachable pg \<Longrightarrow> reachable (step e pg)"

section \<open>Observations and invariants\<close>

text \<open>
  The lifecycle of the specification (idle, requesting, connecting, active, ended), read
  off the state of an instance; the source has no variable for it. A call is being
  requested while a getUserMedia call is pending. It is connecting once the local stream
  is there, active once the remote stream has arrived as well. An open modal with
  nothing pending and no local stream is a call attempt that is over; a closed one is
  idle.
\<close>

datatype phase = Idle | Requesting | Connecting | Active | Ended

definition spec_phase :: "modal \<Rightarrow> phase" where
  "spec_phase m =
     (if pendingMedia m \<noteq> [] then Requesting
      else if localStream m \<noteq> None \<and> remoteStream m \<noteq> None then Active
      else if localStream m \<noteq> None then Connecting
      else if isOpen m then Ended
      else Idle)"

text \<open>The calls made between two states of the page.\<close>

definition new_effects :: "page \<Rightarrow> page \<Rightarrow> effect list" where
  "new_effects pg pg' = drop (length (trace (env pg))) (trace (env pg'))"

text \<open>The number of senders of a connection that carry a video track.\<close>

definition video_count :: "world \<Rightarrow> pc_id \<Rightarrow> nat" where
  "video_count w p = length (filter (is_video w) (senders (conns w ! p)))"

text \<open>An instance holds the capture device while a track of its local stream is live.\<close>

definition live :: "world \<Rightarrow> track_id \<Rightarrow> bool" where
  "live w t = (t < length (tracks w) \<and> \<not> ended (tracks w ! t))"

definition holds_capture :: "modal \<Rightarrow> world \<Rightarrow> bool" where
  "holds_capture m w = (case localStream m of None \<Rightarrow> False | Some s \<Rightarrow> list_ex (live w) s)"

text \<open>The calls of the specification that the source never makes.\<close>

fun relay_call :: "effect \<Rightarrow> bool" where
  "relay_call (SignalSend s) = True"
| "relay_call (SetRemoteDescription p d) = True"
| "relay_call (AddIceCandidate p c) = True"
| "relay_call e = False"

definition quiet :: "world \<Rightarrow> bool" where
  "quiet w = (\<not> list_ex relay_call (trace w))"

text \<open>
  What every handler keeps of the browser store: objects are never removed and a track
  never changes its kind.
\<close>

definition keeps :: "world \<Rightarrow> world \<Rightarrow> bool" where
  "keeps w w' \<longleftrightarrow>
     length (tracks w) \<le> length (tracks w') \<and> length (conns w) \<le> length (conns w') \<and>
     (\<forall>t < length (tracks w). kind (tracks w' ! t) = kind (tracks w ! t))"

text \<open>
  The store is well formed: senders carry existing tracks, and the sender an onended
  function has closed over is a sender that carries a video track.
\<close>

definition senders_ok :: "world \<Rightarrow> bool" where
  "senders_ok w \<longleftrightarrow>
     (\<forall>p < length (conns w). \<forall>t. Some t \<in> set (senders (conns w ! p)) \<longrightarrow> t < length (tracks w))"

definition handlers_ok :: "world \<Rightarrow> bool" where
  "handlers_ok w \<longleftrightarrow>
     (\<forall>v < length (tracks w). \<forall>tg p i ls.
        onended (tracks w ! v) = Some (RevertToCamera tg (Some (p, i)) ls) \<longrightarrow>
        p < length (conns w) \<and> i < length (senders (conns w ! p)) \<and>
        is_video w (senders (conns w ! p) ! i))"

definition world_ok :: "world \<Rightarrow> bool" where
  "world_ok w \<longleftrightarrow> senders_ok w \<and> handlers_ok w"

text \<open>
  The state of an instance is well formed: its local stream is a stream getUserMedia
  returned for its constraints, the objects it names exist, and while the modal is open
  the stream and connection of the state are not those the effect's cleanup function has
  closed over.
\<close>

definition stream_ok :: "bool \<Rightarrow> world \<Rightarrow> stream \<Rightarrow> bool" where
  "stream_ok v w s \<longleftrightarrow>
     distinct s \<and> (\<forall>x \<in> set s. x < length (tracks w)) \<and>
     length (getAudioTracks w s) = 1 \<and> length (getVideoTracks w s) = (if v then 1 else 0)"

definition closure_ok :: "world \<Rightarrow> closure \<Rightarrow> bool" where
  "closure_ok w c \<longleftrightarrow>
     (\<forall>d. c_localStream c = Some d \<longrightarrow> (\<forall>x \<in> set d. x < length (tracks w))) \<and>
     (\<forall>q. c_peerConnection c = Some q \<longrightarrow> q < length (conns w))"

definition apart :: "closure \<Rightarrow> closure \<Rightarrow> bool" where
  "apart c d \<longleftrightarrow>
     (\<forall>s t. c_localStream c = Some s \<longrightarrow> c_localStream d = Some t \<longrightarrow> set s \<inter> set t = {}) \<and>
     (\<forall>p. c_peerConnection c = Some p \<longrightarrow> c_peerConnection d \<noteq> Some p)"

definition modal_ok :: "modal \<Rightarrow> world \<Rightarrow> bool" where
  "modal_ok m w \<longleftrightarrow>
     (\<forall>s. localStream m = Some s \<longrightarrow> stream_ok (isVideoCall m) w s) \<and>
     closure_ok w (closure_of m) \<and>
     closure_ok w (effectCleanup m) \<and>
     (isOpen m \<longrightarrow> apart (closure_of m) (effectCleanup m)) \<and>
     (\<forall>c \<in> set (pendingMedia m). c = (isVideoCall m, True))"

definition page_ok :: "page \<Rightarrow> bool" where
  "page_ok pg \<longleftrightarrow>
     isVideoCall (videoModal pg) \<and> \<not> isVideoCall (audioModal pg) \<and>
     modal_ok (videoModal pg) (env pg) \<and> modal_ok (audioModal pg) (env pg) \<and>
     world_ok (env pg) \<and> quiet (env pg)"

text \<open>The calls cleanup makes with the closure c.\<close>

definition cleanup_effects :: "closure \<Rightarrow> effect list" where
  "cleanup_effects c =
     (case c_localStream c of None \<Rightarrow> [] | Some s \<Rightarrow> map StopTrack s) @
     (case c_peerConnection c of None \<Rightarrow> [] | Some p \<Rightarrow> [ClosePc p])"

text \<open>The tracks an instance can stop: those of its local stream and of the cleanup closure.\<close>

definition own :: "modal \<Rightarrow> track_id set" where
  "own m =
     (case localStream m of None \<Rightarrow> {} | Some s \<Rightarrow> set s) \<union>
     (case c_localStream (effectCleanup m) of None \<Rightarrow> {} | Some d \<Rightarrow> set d)"

section \<open>Scenarios\<close>

text \<open>A video call whose media request was denied.\<close>

definition denied_page :: page where
  "denied_page = run [ClickCall VideoModal, MediaSettled VideoModal Denied] init_page"

text \<open>A video call with its media acquired and its connection created.\<close>

definition call_page :: page where
  "call_page = run [ClickCall VideoModal, MediaSettled VideoModal Granted] init_page"

text \<open>The same call once a remote track has arrived.\<close>

definition active_page :: page where
  "active_page = step (RemoteTrack VideoModal [0]) call_page"

text \<open>The same call while the screen is shared.\<close>

definition sharing_page :: page where
  "sharing_page = run [ClickScreenShare VideoModal, ScreenSettled VideoModal Granted] active_page"

text \<open>A video call and an audio call started one after the other.\<close>

definition two_calls_page :: page where
  "two_calls_page =
     run [ClickCall VideoModal, MediaSettled VideoModal Granted,
          ClickCall AudioModal, MediaSettled AudioModal Granted] init_page"

section \<open>Basic facts\<close>

lemma emit_simps [simp]:
  "tracks (emit es w) = tracks w" "conns (emit es w) = conns w" "trace (emit es w) = trace w @ es"
  by (simp_all add: emit_def)

lemma track_stop_simps [simp]:
  "conns (track_stop t w) = conns w"
  "trace (track_stop t w) = trace w @ [StopTrack t]"
  "length (tracks (track_stop t w)) = length (tracks w)"
  by (simp_all add: track_stop_def)

lemma track_stop_kind [simp]: "kind (tracks (track_stop t w) ! x) = kind (tracks w ! x)"
  by (simp add: track_stop_def nth_list_update)

lemma track_stop_onended [simp]: "onended (tracks (track_stop t w) ! x) = onended (tracks w ! x)"
  by (simp add: track_stop_def nth_list_update)

lemma track_stop_ended: "ended (tracks (track_stop t w) ! x) = (ended (tracks w ! x) \<or> (x = t \<and> t < length (tracks w)))"
  by (auto simp add: track_stop_def nth_list_update)

lemma fold_track_stop_simps [simp]:
  "conns (fold track_stop s w) = conns w"
  "trace (fold track_stop s w) = trace w @ map StopTrack s"
  "length (tracks (fold track_stop s w)) = length (tracks w)"
  by (induction s arbitrary: w) simp_all

lemma fold_track_stop_kind [simp]: "kind (tracks (fold track_stop s w) ! x) = kind (tracks w ! x)"
  by (induction s arbitrary: w) simp_all

lemma fold_track_stop_onended [simp]: "onended (tracks (fold track_stop s w) ! x) = onended (tracks w ! x)"
  by (induction s arbitrary: w) simp_all

lemma fold_track_stop_ended:
  "ended (tracks (fold track_stop s w) ! x) = (ended (tracks w ! x) \<or> (x \<in> set s \<and> x < length (tracks w)))"
  by (induction s arbitrary: w) (auto simp add: track_stop_ended)

lemma pc_close_simps [simp]:
  "tracks (pc_close p w) = tracks w"
  "trace (pc_close p w) = trace w @ [ClosePc p]"
  "length (conns (pc_close p w)) = length (conns w)"
  by (simp_all add: pc_close_def)

lemma pc_close_senders [simp]: "senders (conns (pc_close p w) ! q) = senders (conns w ! q)"
  by (simp add: pc_close_def nth_list_update)

lemma pc_close_closed: "closed (conns (pc_close p w) ! q) = (closed (conns w ! q) \<or> (q = p \<and> p < length (conns w)))"
  by (auto simp add: pc_close_def nth_list_update)

lemma new_pc_simps [simp]:
  "fst (new_pc w) = length (conns w)"
  "tracks (snd (new_pc w)) = tracks w"
  "conns (snd (new_pc w)) = conns w @ [\<lparr>closed = False, senders = []\<rparr>]"
  "trace (snd (new_pc w)) = trace w @ [NewPeerConnection (length (conns w))]"
  by (simp_all add: new_pc_def)

lemma pc_addTrack_simps [simp]:
  "tracks (pc_addTrack p t w) = tracks w"
  "trace (pc_addTrack p t w) = trace w @ [AddTrack p t]"
  "length (conns (pc_addTrack p t w)) = length (conns w)"
  by (simp_all add: pc_addTrack_def)

lemma pc_addTrack_other [simp]: "q \<noteq> p \<Longrightarrow> conns (pc_addTrack p t w) ! q = conns w ! q"
  by (simp add: pc_addTrack_def)

lemma pc_addTrack_closed [simp]: "closed (conns (pc_addTrack p t w) ! q) = closed (conns w ! q)"
  by (simp add: pc_addTrack_def nth_list_update)

lemma pc_addTrack_senders:
  "senders (conns (pc_addTrack p t w) ! q) =
     (if q = p \<and> p < length (conns w) then senders (conns w ! q) @ [Some t] else senders (conns w ! q))"
  by (simp add: pc_addTrack_def nth_list_update)

lemma fold_addTrack_simps [simp]:
  "tracks (fold (pc_addTrack p) s w) = tracks w"
  "trace (fold (pc_addTrack p) s w) = trace w @ map (AddTrack p) s"
  "length (conns (fold (pc_addTrack p) s w)) = length (conns w)"
  by (induction s arbitrary: w) simp_all

lemma fold_addTrack_other [simp]: "q \<noteq> p \<Longrightarrow> conns (fold (pc_addTrack p) s w) ! q = conns w ! q"
  by (induction s arbitrary: w) simp_all

lemma fold_addTrack_closed [simp]: "closed (conns (fold (pc_addTrack p) s w) ! q) = closed (conns w ! q)"
  by (induction s arbitrary: w) simp_all

lemma fold_addTrack_senders:
  "senders (conns (fold (pc_addTrack p) s w) ! q) =
     (if q = p \<and> p < length (conns w) then senders (conns w ! q) @ map Some s else senders (conns w ! q))"
  by (induction s arbitrary: w) (simp_all add: pc_addTrack_senders)

lemma replaceTrack_simps [simp]:
  "tracks (replaceTrack s t w) = tracks w"
  "trace (replaceTrack s t w) = trace w @ [ReplaceTrack s t]"
  "length (conns (replaceTrack s t w)) = length (conns w)"
  by (simp_all add: replaceTrack_def split: prod.splits)

lemma replaceTrack_closed [simp]: "closed (conns (replaceTrack s t w) ! q) = closed (conns w ! q)"
  by (simp add: replaceTrack_def nth_list_update split: prod.splits)

lemma replaceTrack_senders:
  "senders (conns (replaceTrack (p, i) t w) ! q) =
     (if q = p \<and> p < length (conns w) \<and> \<not> closed (conns w ! p)
      then (senders (conns w ! q))[i := Some t] else senders (conns w ! q))"
  by (simp add: replaceTrack_def nth_list_update list_update_beyond)

lemma user_media_simps [simp]:
  "conns (snd (user_media v a w)) = conns w"
  "trace (snd (user_media v a w)) = trace w"
  by (simp_all add: user_media_def Let_def)

lemma display_media_simps [simp]:
  "fst (display_media w) = length (tracks w)"
  "tracks (snd (display_media w)) = tracks w @ [new_track Video Screen]"
  "conns (snd (display_media w)) = conns w"
  "trace (snd (display_media w)) = trace w"
  by (simp_all add: display_media_def)

lemma put_get [simp]:
  "get_modal tg (put tg mw pg) = fst mw"
  "env (put tg mw pg) = snd mw"
  "tg' \<noteq> tg \<Longrightarrow> get_modal tg' (put tg mw pg) = get_modal tg' pg"
  by (cases tg; cases tg'; simp add: put_def get_modal_def)+

lemma put_same [simp]: "put tg (get_modal tg pg, env pg) pg = pg"
  by (cases tg) (simp_all add: put_def get_modal_def)

lemma user_media_tracks:
  "tracks (snd (user_media v a w)) =
     tracks w @ (if a then [new_track Audio Microphone] else []) @ (if v then [new_track Video Camera] else [])"
  by (simp add: user_media_def Let_def)

lemma user_media_stream:
  "fst (user_media v a w) =
     [length (tracks w) ..< length (tracks w) + ((if a then 1 else 0) + (if v then 1 else 0))]"
  by (simp add: user_media_def Let_def)

subsection \<open>keeps\<close>

lemma keeps_refl [simp]: "keeps w w"
  by (simp add: keeps_def)

lemma keeps_emit: "keeps w w1 \<Longrightarrow> keeps w (emit es w1)"
  by (simp add: keeps_def)

lemma keeps_fold_stop: "keeps w w1 \<Longrightarrow> keeps w (fold track_stop s w1)"
  by (simp add: keeps_def)

lemma keeps_pc_close: "keeps w w1 \<Longrightarrow> keeps w (pc_close p w1)"
  by (simp add: keeps_def)

lemma keeps_replaceTrack: "keeps w w1 \<Longrightarrow> keeps w (replaceTrack s t w1)"
  by (simp add: keeps_def)

lemma keeps_user_media: "keeps w w1 \<Longrightarrow> keeps w (snd (user_media v a w1))"
  by (simp add: keeps_def user_media_tracks nth_append)

lemma keeps_display_media: "keeps w w1 \<Longrightarrow> keeps w (snd (display_media w1))"
  by (simp add: keeps_def nth_append)

lemma keeps_new_pc: "keeps w w1 \<Longrightarrow> keeps w (snd (new_pc w1))"
  by (simp add: keeps_def)

lemma keeps_fold_addTrack: "keeps w w1 \<Longrightarrow> keeps w (fold (pc_addTrack p) s w1)"
  by (simp add: keeps_def)

lemma keeps_track_update:
  "keeps w w1 \<Longrightarrow> kind x = kind (tracks w1 ! t) \<Longrightarrow> keeps w (w1\<lparr>tracks := (tracks w1)[t := x]\<rparr>)"
  by (cases "t < length (tracks w1)") (auto simp add: keeps_def nth_list_update list_update_beyond)

lemmas keeps_intros = keeps_emit keeps_fold_stop keeps_pc_close keeps_replaceTrack keeps_user_media
  keeps_display_media keeps_new_pc keeps_fold_addTrack keeps_track_update

lemma keeps_cleanup_closure: "keeps w w1 \<Longrightarrow> keeps w (snd (cleanup_closure c (m, w1)))"
  by (auto simp add: cleanup_closure_def Let_def split: option.splits intro!: keeps_intros)

lemma keeps_initializeCall_begin: "keeps w w1 \<Longrightarrow> keeps w (snd (initializeCall_begin (m, w1)))"
  by (simp add: initializeCall_begin_def keeps_intros)


lemma initializeCall_resume_granted:
  "initializeCall_resume c Granted (m, w) =
     (m\<lparr>localStream := Some (fst (user_media (fst c) (snd c) w)),
        peerConnection := Some (length (conns w))\<rparr>,
      fold (pc_addTrack (length (conns w))) (fst (user_media (fst c) (snd c) w))
        (snd (new_pc (snd (user_media (fst c) (snd c) w)))))"
  by (simp add: initializeCall_resume_def split_def Let_def)

lemma initializeCall_resume_denied:
  "initializeCall_resume c Denied (m, w) =
     (m, emit [ConsoleError, Toast ''Error'' ''Failed to access camera/microphone''] w)"
  by (simp add: initializeCall_resume_def)

lemma keeps_initializeCall_resume: "keeps w w1 \<Longrightarrow> keeps w (snd (initializeCall_resume c out (m, w1)))"
  by (cases out) (simp_all add: initializeCall_resume_granted initializeCall_resume_denied keeps_intros)

lemma toggleScreenShare_resume_granted:
  "toggleScreenShare_resume tg c Granted (m, w) =
     (let v = length (tracks w);
          w1 = snd (display_media w);
          sender = find_video_sender w1 (c_peerConnection c);
          w2 = (case sender of None \<Rightarrow> w1 | Some s \<Rightarrow> replaceTrack s v w1)
      in (m\<lparr>isScreenSharing := True\<rparr>,
          w2\<lparr>tracks := (tracks w2)[v := (tracks w2 ! v)\<lparr>onended := Some (RevertToCamera tg sender (c_localStream c))\<rparr>]\<rparr>))"
  by (simp add: toggleScreenShare_resume_def split_def Let_def cong: option.case_cong)

lemma toggleScreenShare_resume_denied:
  "toggleScreenShare_resume tg c Denied (m, w) = (m, emit [ConsoleError, Toast ''Error'' ''Failed to share screen''] w)"
  by (simp add: toggleScreenShare_resume_def)

lemma keeps_toggleScreenShare_resume:
  "keeps w w1 \<Longrightarrow> keeps w (snd (toggleScreenShare_resume tg c out (m, w1)))"
  by (cases out) (auto simp add: toggleScreenShare_resume_granted toggleScreenShare_resume_denied Let_def
      keeps_def nth_append split: option.splits)

lemma keeps_toggleScreenShare_begin:
  "keeps w w1 \<Longrightarrow> keeps w (snd (toggleScreenShare_begin (m, w1)))"
  by (auto simp add: toggleScreenShare_begin_def Let_def split: option.splits intro!: keeps_intros)

lemma keeps_screen_ended: "keeps w w1 \<Longrightarrow> keeps w (snd (screen_ended sender ls (m, w1)))"
  by (auto simp add: screen_ended_def Let_def split: option.splits intro!: keeps_intros)

lemma keeps_ontrack: "keeps w w1 \<Longrightarrow> keeps w (snd (ontrack streams (m, w1)))"
  by (simp add: ontrack_def)

lemma keeps_onicecandidate: "keeps w w1 \<Longrightarrow> keeps w (snd (onicecandidate c (m, w1)))"
  by (auto simp add: onicecandidate_def split: option.splits intro!: keeps_intros)

lemma keeps_toggleMute: "keeps w w1 \<Longrightarrow> toggleMute (m, w1) = Inr (m', w') \<Longrightarrow> keeps w w'"
  by (auto simp add: toggleMute_def Let_def split: option.splits intro!: keeps_intros)

lemma keeps_toggleVideo: "keeps w w1 \<Longrightarrow> toggleVideo (m, w1) = Inr (m', w') \<Longrightarrow> keeps w w'"
  by (auto simp add: toggleVideo_def Let_def split: option.splits intro!: keeps_intros)

lemma set_isOpen_eq:
  "set_isOpen b (m, w) =
     (if isOpen m = b then (m, w)
      else
        (let mw1 = cleanup_closure (effectCleanup m) (m\<lparr>isOpen := b\<rparr>, w);
             mw2 = (if b then initializeCall_begin mw1 else mw1)
         in ((fst mw2)\<lparr>effectCleanup := closure_of m\<rparr>, snd mw2)))"
  by (simp add: set_isOpen_def Let_def split_def)

lemma keeps_set_isOpen: "keeps w w1 \<Longrightarrow> keeps w (snd (set_isOpen b (m, w1)))"
  by (simp add: set_isOpen_eq Let_def cleanup_closure_def initializeCall_begin_def keeps_intros split: option.splits)

lemma keeps_endCall: "keeps w w1 \<Longrightarrow> keeps w (snd (endCall (m, w1)))"
  using keeps_set_isOpen [OF keeps_cleanup_closure, of w w1 False _ "closure_of m" m]
  by (simp add: endCall_def cleanup_def) (metis prod.collapse)

subsection \<open>quiet\<close>

lemma quiet_simps [simp]:
  "quiet (emit es w) = (quiet w \<and> \<not> list_ex relay_call es)"
  "quiet (fold track_stop s w) = quiet w"
  "quiet (pc_close p w) = quiet w"
  "quiet (replaceTrack sd t w) = quiet w"
  "quiet (snd (user_media v a w)) = quiet w"
  "quiet (snd (display_media w)) = quiet w"
  "quiet (snd (new_pc w)) = quiet w"
  "quiet (fold (pc_addTrack p) s w) = quiet w"
  "quiet (w\<lparr>tracks := ts\<rparr>) = quiet w"
  by (auto simp add: quiet_def list_ex_iff)

lemma quiet_cleanup_closure [simp]: "quiet (snd (cleanup_closure c (m, w))) = quiet w"
  by (simp add: cleanup_closure_def Let_def split: option.splits)

lemma quiet_set_isOpen [simp]: "quiet (snd (set_isOpen b (m, w))) = quiet w"
  by (simp add: set_isOpen_eq Let_def initializeCall_begin_def cleanup_closure_def split: option.splits)

lemma quiet_endCall [simp]: "quiet (snd (endCall (m, w))) = quiet w"
  using quiet_set_isOpen [of False "fst (cleanup (m, w))" "snd (cleanup (m, w))"]
  by (simp add: endCall_def cleanup_def)

lemma quiet_initializeCall_resume [simp]: "quiet (snd (initializeCall_resume c out (m, w))) = quiet w"
  by (cases out) (simp_all add: initializeCall_resume_granted initializeCall_resume_denied)

lemma quiet_toggleScreenShare_resume [simp]:
  "quiet (snd (toggleScreenShare_resume tg c out (m, w))) = quiet w"
  by (cases out) (simp_all add: toggleScreenShare_resume_granted toggleScreenShare_resume_denied Let_def split: option.splits)

lemma quiet_toggleScreenShare_begin [simp]: "quiet (snd (toggleScreenShare_begin (m, w))) = quiet w"
  by (simp add: toggleScreenShare_begin_def Let_def split: option.splits)

lemma quiet_screen_ended [simp]: "quiet (snd (screen_ended sd ls (m, w))) = quiet w"
  by (simp add: screen_ended_def Let_def split: option.splits)

lemma quiet_ontrack [simp]: "quiet (snd (ontrack streams (m, w))) = quiet w"
  by (simp add: ontrack_def)

lemma quiet_onicecandidate [simp]: "quiet (snd (onicecandidate c (m, w))) = quiet w"
  by (simp add: onicecandidate_def split: option.splits)

lemma quiet_toggleMute: "toggleMute (m, w) = Inr (m', w') \<Longrightarrow> quiet w' = quiet w"
  by (auto simp add: toggleMute_def Let_def split: option.splits)

lemma quiet_toggleVideo: "toggleVideo (m, w) = Inr (m', w') \<Longrightarrow> quiet w' = quiet w"
  by (auto simp add: toggleVideo_def Let_def split: option.splits)

lemma quiet_on_modal:
  "(\<And>m w. quiet (snd (f (m, w))) = quiet w) \<Longrightarrow> quiet (env (on_modal tg f pg)) = quiet (env pg)"
  by (simp add: on_modal_def)

lemma quiet_try_modal:
  "(\<And>m w m' w'. f (m, w) = Inr (m', w') \<Longrightarrow> quiet w' = quiet w) \<Longrightarrow>
   quiet (env (try_modal tg f pg)) = quiet (env pg)"
  by (auto simp add: try_modal_def split: sum.splits)

lemma quiet_step: "quiet (env (step e pg)) = quiet (env pg)"
proof (cases e)
  case (ClickMute tg)
  then show ?thesis by (simp add: step_def quiet_try_modal quiet_toggleMute)
next
  case (ClickVideo tg)
  then show ?thesis by (simp add: step_def quiet_try_modal quiet_toggleVideo)
next
  case (ScreenCaptureEnded v)
  then show ?thesis
    by (simp add: step_def Let_def quiet_on_modal split: option.splits onended_handler.splits)
next
  case (MediaSettled tg out)
  then show ?thesis by (simp add: step_def quiet_on_modal split: list.splits)
next
  case (ScreenSettled tg out)
  then show ?thesis by (simp add: step_def quiet_on_modal split: list.splits)
qed (simp_all add: step_def quiet_on_modal)

subsection \<open>Video senders\<close>

lemma is_video_Some: "is_video w (Some t) \<longleftrightarrow> t < length (tracks w) \<and> kind (tracks w ! t) = Video"
  by (simp add: is_video_def track_kind_def)

lemma is_video_None [simp]: "\<not> is_video w None"
  by (simp add: is_video_def)

lemma is_video_keeps: "keeps w w' \<Longrightarrow> is_video w x \<Longrightarrow> is_video w' x"
  by (cases x) (auto simp add: is_video_Some keeps_def)

lemma is_video_keeps_eq:
  "keeps w w' \<Longrightarrow> (\<And>t. x = Some t \<Longrightarrow> t < length (tracks w)) \<Longrightarrow> is_video w' x = is_video w x"
  by (cases x) (auto simp add: is_video_Some keeps_def)

lemma find_index_Some:
  "find_index P xs = Some i \<Longrightarrow> i < length xs \<and> P (xs ! i) \<and> (\<forall>j<i. \<not> P (xs ! j))"
proof (induction xs arbitrary: i)
  case Nil
  then show ?case by simp
next
  case (Cons x xs)
  show ?case
  proof (cases "P x")
    case True
    with Cons.prems show ?thesis by simp
  next
    case False
    with Cons.prems obtain k where k: "find_index P xs = Some k" "i = Suc k"
      by auto
    from Cons.IH [OF k(1)] False k(2) show ?thesis
      by (auto simp add: nth_Cons split: nat.splits)
  qed
qed

lemma find_video_sender_Some:
  "find_video_sender w pc = Some (p, i) \<Longrightarrow>
     pc = Some p \<and> p < length (conns w) \<and> i < length (senders (conns w ! p)) \<and>
     is_video w (senders (conns w ! p) ! i)"
  by (auto simp add: find_video_sender_def split: option.splits if_splits dest: find_index_Some)

lemma first_Some: "first xs = Some x \<Longrightarrow> x \<in> set xs"
  by (cases xs) auto

lemma first_video_track_Some: "first_video_track w ls = Some v \<Longrightarrow> is_video w (Some v)"
  by (auto simp add: first_video_track_def getVideoTracks_def is_video_def split: option.splits dest: first_Some)

subsection \<open>The well-formed store\<close>

lemma world_ok_same:
  assumes "world_ok w" "keeps w w'" "length (tracks w') = length (tracks w)"
    and "length (conns w') = length (conns w)"
    and "\<And>v. v < length (tracks w) \<Longrightarrow> onended (tracks w' ! v) = onended (tracks w ! v)"
    and "\<And>p. p < length (conns w) \<Longrightarrow> senders (conns w' ! p) = senders (conns w ! p)"
  shows "world_ok w'"
  using assms is_video_keeps [OF assms(2)]
  unfolding world_ok_def senders_ok_def handlers_ok_def
  by (auto; metis)

lemma nth_update_field: "f x = f (xs ! v) \<Longrightarrow> f (xs[v := x] ! j) = f (xs ! j)"
  by (cases "v < length xs") (auto simp add: nth_list_update list_update_beyond)

lemma nth_update_pred: "j < length xs \<Longrightarrow> P (xs ! j) \<Longrightarrow> P x \<Longrightarrow> P (xs[i := x] ! j)"
  by (cases "i = j") simp_all

lemma is_video_tracks: "tracks w' = tracks w \<Longrightarrow> is_video w' = is_video w"
  by (rule ext) (simp add: is_video_def track_kind_def split: option.splits)

lemma is_video_simps [simp]:
  "is_video (emit es w) = is_video w"
  "is_video (pc_close p w) = is_video w"
  "is_video (snd (new_pc w)) = is_video w"
  "is_video (pc_addTrack p t w) = is_video w"
  "is_video (fold (pc_addTrack p) s w) = is_video w"
  "is_video (replaceTrack sd t w) = is_video w"
  "is_video (w\<lparr>conns := cs\<rparr>) = is_video w"
  by (rule is_video_tracks, simp)+

lemma track_kind_simps [simp]:
  "track_kind (emit es w) = track_kind w"
  "track_kind (pc_close p w) = track_kind w"
  "track_kind (snd (new_pc w)) = track_kind w"
  "track_kind (pc_addTrack p t w) = track_kind w"
  "track_kind (fold (pc_addTrack p) s w) = track_kind w"
  "track_kind (replaceTrack sd t w) = track_kind w"
  "track_kind (w\<lparr>conns := cs\<rparr>) = track_kind w"
  "track_kind (fold track_stop s w) = track_kind w"
  by (rule ext, simp add: track_kind_def)+

lemma is_video_fold_stop [simp]: "is_video (fold track_stop s w) = is_video w"
  by (rule ext) (simp add: is_video_def split: option.splits)

lemma world_ok_emit [simp]: "world_ok (emit es w) = world_ok w"
  by (simp add: world_ok_def senders_ok_def handlers_ok_def)

lemma world_ok_fold_stop: "world_ok w \<Longrightarrow> world_ok (fold track_stop s w)"
  by (rule world_ok_same [of w]) (simp_all add: keeps_fold_stop)

lemma world_ok_pc_close: "world_ok w \<Longrightarrow> world_ok (pc_close p w)"
  by (rule world_ok_same [of w]) (simp_all add: keeps_pc_close)

lemma world_ok_track_update:
  "world_ok w \<Longrightarrow> kind x = kind (tracks w ! t) \<Longrightarrow> onended x = onended (tracks w ! t) \<Longrightarrow>
   world_ok (w\<lparr>tracks := (tracks w)[t := x]\<rparr>)"
  by (rule world_ok_same [of w]; cases "t < length (tracks w)")
    (auto simp add: keeps_track_update nth_list_update list_update_beyond)

lemma senders_ok_append: "senders_ok w \<Longrightarrow> senders_ok (w\<lparr>tracks := tracks w @ new\<rparr>)"
  unfolding senders_ok_def by (simp add: trans_less_add1)

lemma handlers_ok_append:
  assumes "handlers_ok w" "\<forall>x \<in> set new. onended x = None"
  shows "handlers_ok (w\<lparr>tracks := tracks w @ new\<rparr>)"
  unfolding handlers_ok_def
proof (intro allI impI)
  fix v tg p i ls
  let ?w = "w\<lparr>tracks := tracks w @ new\<rparr>"
  assume v: "v < length (tracks ?w)"
    and h: "onended (tracks ?w ! v) = Some (RevertToCamera tg (Some (p, i)) ls)"
  have k: "keeps w ?w"
    by (simp add: keeps_def nth_append)
  have "v < length (tracks w)"
  proof (rule ccontr)
    assume "\<not> v < length (tracks w)"
    with v have "tracks ?w ! v \<in> set new"
      by (simp add: nth_append)
    with assms(2) h show False by simp
  qed
  with h have "onended (tracks w ! v) = Some (RevertToCamera tg (Some (p, i)) ls)"
    by (simp add: nth_append)
  with assms(1) \<open>v < length (tracks w)\<close>
  have "p < length (conns w) \<and> i < length (senders (conns w ! p)) \<and> is_video w (senders (conns w ! p) ! i)"
    unfolding handlers_ok_def by blast
  then show "p < length (conns ?w) \<and> i < length (senders (conns ?w ! p)) \<and> is_video ?w (senders (conns ?w ! p) ! i)"
    using is_video_keeps [OF k] by simp
qed

lemma world_ok_append:
  "world_ok w \<Longrightarrow> \<forall>x \<in> set new. onended x = None \<Longrightarrow> world_ok (w\<lparr>tracks := tracks w @ new\<rparr>)"
  by (simp add: world_ok_def senders_ok_append handlers_ok_append)

lemma world_ok_user_media: "world_ok w \<Longrightarrow> world_ok (snd (user_media v a w))"
  by (simp add: user_media_def Let_def world_ok_append new_track_def)

lemma world_ok_display_media: "world_ok w \<Longrightarrow> world_ok (snd (display_media w))"
  by (simp add: display_media_def world_ok_append new_track_def)

lemma senders_ok_new_pc: "senders_ok w \<Longrightarrow> senders_ok (snd (new_pc w))"
  unfolding senders_ok_def by (simp add: nth_append less_Suc_eq)

lemma handlers_ok_same_senders:
  assumes "handlers_ok w" "tracks w' = tracks w" "length (conns w) \<le> length (conns w')"
    and "\<And>p. p < length (conns w) \<Longrightarrow> \<exists>zs. senders (conns w' ! p) = senders (conns w ! p) @ zs"
  shows "handlers_ok w'"
  unfolding handlers_ok_def
proof (intro allI impI)
  fix v tg p i ls
  assume v: "v < length (tracks w')"
    and h: "onended (tracks w' ! v) = Some (RevertToCamera tg (Some (p, i)) ls)"
  from v h assms(1,2)
  have *: "p < length (conns w)" "i < length (senders (conns w ! p))" "is_video w (senders (conns w ! p) ! i)"
    unfolding handlers_ok_def by (simp; blast)+
  from assms(4) [OF *(1)] obtain zs where zs: "senders (conns w' ! p) = senders (conns w ! p) @ zs"
    by blast
  from * assms(3) show "p < length (conns w') \<and> i < length (senders (conns w' ! p)) \<and> is_video w' (senders (conns w' ! p) ! i)"
    by (simp add: zs nth_append is_video_tracks [OF assms(2)])
qed

lemma handlers_ok_new_pc: "handlers_ok w \<Longrightarrow> handlers_ok (snd (new_pc w))"
  by (rule handlers_ok_same_senders [of w]) (simp_all add: nth_append)

lemma world_ok_new_pc: "world_ok w \<Longrightarrow> world_ok (snd (new_pc w))"
  by (simp add: world_ok_def senders_ok_new_pc handlers_ok_new_pc)

lemma senders_ok_addTrack: "senders_ok w \<Longrightarrow> t < length (tracks w) \<Longrightarrow> senders_ok (pc_addTrack p t w)"
  unfolding senders_ok_def by (auto simp add: pc_addTrack_senders split: if_splits)

lemma handlers_ok_addTrack: "handlers_ok w \<Longrightarrow> handlers_ok (pc_addTrack p t w)"
  by (rule handlers_ok_same_senders [of w]) (simp_all add: pc_addTrack_senders)

lemma world_ok_addTrack: "world_ok w \<Longrightarrow> t < length (tracks w) \<Longrightarrow> world_ok (pc_addTrack p t w)"
  by (simp add: world_ok_def senders_ok_addTrack handlers_ok_addTrack)

lemma world_ok_fold_addTrack:
  "world_ok w \<Longrightarrow> \<forall>t \<in> set s. t < length (tracks w) \<Longrightarrow> world_ok (fold (pc_addTrack p) s w)"
  by (induction s arbitrary: w) (simp_all add: world_ok_addTrack)

lemma senders_ok_replaceTrack:
  assumes "senders_ok w" "t < length (tracks w)"
  shows "senders_ok (replaceTrack (p, i) t w)"
  unfolding senders_ok_def
proof (intro allI impI)
  fix q x
  assume q: "q < length (conns (replaceTrack (p, i) t w))"
    and x: "Some x \<in> set (senders (conns (replaceTrack (p, i) t w) ! q))"
  have "Some x \<in> set (senders (conns w ! q)) \<or> x = t"
    using x set_update_subset_insert [of "senders (conns w ! q)" i "Some t"]
    by (auto simp add: replaceTrack_senders split: if_splits)
  with assms q show "x < length (tracks (replaceTrack (p, i) t w))"
    by (auto simp add: senders_ok_def)
qed

lemma handlers_ok_replaceTrack:
  assumes "handlers_ok w" "is_video w (Some t)"
  shows "handlers_ok (replaceTrack (p, i) t w)"
  unfolding handlers_ok_def
proof (intro allI impI)
  fix v tg q j ls
  let ?w = "replaceTrack (p, i) t w"
  assume v: "v < length (tracks ?w)"
    and h: "onended (tracks ?w ! v) = Some (RevertToCamera tg (Some (q, j)) ls)"
  from v h assms(1)
  have *: "q < length (conns w)" "j < length (senders (conns w ! q))" "is_video w (senders (conns w ! q) ! j)"
    unfolding handlers_ok_def by (simp; blast)+
  with assms(2) show "q < length (conns ?w) \<and> j < length (senders (conns ?w ! q)) \<and> is_video ?w (senders (conns ?w ! q) ! j)"
    by (auto simp add: replaceTrack_senders intro: nth_update_pred)
qed

lemma world_ok_replaceTrack:
  "world_ok w \<Longrightarrow> is_video w (Some t) \<Longrightarrow> world_ok (replaceTrack sd t w)"
  by (cases sd) (simp add: world_ok_def senders_ok_replaceTrack handlers_ok_replaceTrack is_video_Some)

lemma world_ok_set_onended:
  assumes "world_ok w"
    and "\<And>p i. sender = Some (p, i) \<Longrightarrow>
           p < length (conns w) \<and> i < length (senders (conns w ! p)) \<and> is_video w (senders (conns w ! p) ! i)"
  shows "world_ok (w\<lparr>tracks := (tracks w)[v := (tracks w ! v)\<lparr>onended := Some (RevertToCamera tg sender ls)\<rparr>]\<rparr>)"
proof -
  let ?w = "w\<lparr>tracks := (tracks w)[v := (tracks w ! v)\<lparr>onended := Some (RevertToCamera tg sender ls)\<rparr>]\<rparr>"
  have k: "keeps w ?w"
    by (simp add: keeps_track_update)
  have v: "is_video ?w = is_video w"
    by (rule ext) (simp add: is_video_def track_kind_def nth_update_field split: option.splits)
  have s: "senders_ok ?w"
    using assms(1) unfolding world_ok_def senders_ok_def by simp
  have "handlers_ok ?w"
    unfolding handlers_ok_def
  proof (intro allI impI)
    fix x tg' p i ls'
    assume x: "x < length (tracks ?w)"
      and h: "onended (tracks ?w ! x) = Some (RevertToCamera tg' (Some (p, i)) ls')"
    have "p < length (conns w) \<and> i < length (senders (conns w ! p)) \<and> is_video w (senders (conns w ! p) ! i)"
    proof (cases "x = v")
      case True
      with x h have "sender = Some (p, i)" by simp
      then show ?thesis by (rule assms(2))
    next
      case False
      with x h have "onended (tracks w ! x) = Some (RevertToCamera tg' (Some (p, i)) ls')" by simp
      with x assms(1) show ?thesis unfolding world_ok_def handlers_ok_def by simp
    qed
    then show "p < length (conns ?w) \<and> i < length (senders (conns ?w ! p)) \<and> is_video ?w (senders (conns ?w ! p) ! i)"
      by (simp add: v)
  qed
  with s show ?thesis by (simp add: world_ok_def)
qed

lemma world_ok_cleanup_closure: "world_ok w \<Longrightarrow> world_ok (snd (cleanup_closure c (m, w)))"
  by (simp add: cleanup_closure_def Let_def world_ok_fold_stop world_ok_pc_close split: option.splits)

lemma world_ok_set_isOpen: "world_ok w \<Longrightarrow> world_ok (snd (set_isOpen b (m, w)))"
  by (simp add: set_isOpen_eq Let_def cleanup_closure_def initializeCall_begin_def
      world_ok_fold_stop world_ok_pc_close split: option.splits)

lemma world_ok_endCall: "world_ok w \<Longrightarrow> world_ok (snd (endCall (m, w)))"
  using world_ok_set_isOpen [OF world_ok_cleanup_closure, of w False _ "closure_of m" m]
  by (simp add: endCall_def cleanup_def) (metis prod.collapse)

lemma user_media_stream_bound:
  "x \<in> set (fst (user_media v a w)) \<Longrightarrow> x < length (tracks (snd (user_media v a w)))"
  by (auto simp add: user_media_def Let_def)

lemma world_ok_initializeCall_resume: "world_ok w \<Longrightarrow> world_ok (snd (initializeCall_resume c out (m, w)))"
  by (cases out)
    (simp_all add: initializeCall_resume_granted initializeCall_resume_denied world_ok_fold_addTrack
      world_ok_new_pc world_ok_user_media user_media_stream_bound)

lemma world_ok_toggleScreenShare_begin: "world_ok w \<Longrightarrow> world_ok (snd (toggleScreenShare_begin (m, w)))"
  by (auto simp add: toggleScreenShare_begin_def Let_def world_ok_replaceTrack first_video_track_Some
      split: option.splits)

lemma world_ok_screen_ended: "world_ok w \<Longrightarrow> world_ok (snd (screen_ended sd ls (m, w)))"
  by (auto simp add: screen_ended_def Let_def world_ok_replaceTrack first_video_track_Some
      split: option.splits)

lemma is_video_new_screen: "is_video (snd (display_media w)) (Some (length (tracks w)))"
  by (simp add: is_video_Some new_track_def)

lemma sender_video_replaceTrack:
  assumes "p < length (conns w)" "i < length (senders (conns w ! p))"
    and "is_video w (senders (conns w ! p) ! i)" "is_video w (Some v)"
  shows "i < length (senders (conns (replaceTrack sd v w) ! p)) \<and>
         is_video w (senders (conns (replaceTrack sd v w) ! p) ! i)"
  using assms by (cases sd) (auto simp add: replaceTrack_senders intro: nth_update_pred)

lemma world_ok_toggleScreenShare_resume:
  assumes "world_ok w"
  shows "world_ok (snd (toggleScreenShare_resume tg c out (m, w)))"
proof (cases out)
  case Denied
  with assms show ?thesis by (simp add: toggleScreenShare_resume_denied)
next
  case Granted
  let ?w1 = "snd (display_media w)"
  let ?v = "length (tracks w)"
  let ?sd = "find_video_sender ?w1 (c_peerConnection c)"
  let ?w2 = "case ?sd of None \<Rightarrow> ?w1 | Some s \<Rightarrow> replaceTrack s ?v ?w1"
  have w1: "world_ok ?w1" using assms by (rule world_ok_display_media)
  have w2: "world_ok ?w2"
    using w1 by (simp add: world_ok_replaceTrack is_video_new_screen split: option.splits)
  have sd: "p < length (conns ?w2) \<and> i < length (senders (conns ?w2 ! p)) \<and> is_video ?w2 (senders (conns ?w2 ! p) ! i)"
    if "?sd = Some (p, i)" for p i
    using find_video_sender_Some [OF that] sender_video_replaceTrack [of p ?w1 i ?v "(p, i)"] that
    by (simp add: is_video_new_screen)
  from world_ok_set_onended [where w = ?w2 and sender = ?sd and tg = tg and v = ?v and ls = "c_localStream c", OF w2 sd] Granted
  show ?thesis
    by (simp add: toggleScreenShare_resume_granted Let_def)
qed

lemma world_ok_toggleMute: "world_ok w \<Longrightarrow> toggleMute (m, w) = Inr (m', w') \<Longrightarrow> world_ok w'"
  by (auto simp add: toggleMute_def Let_def world_ok_track_update split: option.splits)

lemma world_ok_toggleVideo: "world_ok w \<Longrightarrow> toggleVideo (m, w) = Inr (m', w') \<Longrightarrow> world_ok w'"
  by (auto simp add: toggleVideo_def Let_def world_ok_track_update split: option.splits)

lemma world_ok_ontrack: "world_ok w \<Longrightarrow> world_ok (snd (ontrack streams (m, w)))"
  by (simp add: ontrack_def)

lemma world_ok_onicecandidate: "world_ok w \<Longrightarrow> world_ok (snd (onicecandidate c (m, w)))"
  by (simp add: onicecandidate_def split: option.splits)

subsection \<open>The well-formed instance\<close>

lemma track_kind_keeps: "keeps w w' \<Longrightarrow> x < length (tracks w) \<Longrightarrow> track_kind w' x = track_kind w x"
  by (simp add: keeps_def track_kind_def)

lemma stream_ok_keeps:
  assumes "stream_ok v w s" "keeps w w'"
  shows "stream_ok v w' s"
proof -
  from assms(1) have b: "\<forall>x \<in> set s. x < length (tracks w)"
    by (simp add: stream_ok_def)
  with assms(2) have "getAudioTracks w' s = getAudioTracks w s" "getVideoTracks w' s = getVideoTracks w s"
    by (auto simp add: getAudioTracks_def getVideoTracks_def track_kind_keeps intro!: filter_cong)
  with assms b show ?thesis
    by (auto simp add: stream_ok_def keeps_def)
qed

lemma closure_ok_keeps: "closure_ok w c \<Longrightarrow> keeps w w' \<Longrightarrow> closure_ok w' c"
  unfolding closure_ok_def keeps_def by (meson less_le_trans)

lemma modal_ok_keeps: "modal_ok m w \<Longrightarrow> keeps w w' \<Longrightarrow> modal_ok m w'"
  unfolding modal_ok_def
  by (blast intro: stream_ok_keeps closure_ok_keeps)

lemma closure_ok_empty [simp]: "closure_ok w \<lparr>c_localStream = None, c_peerConnection = None\<rparr>"
  by (simp add: closure_ok_def)

lemma apart_empty [simp]: "apart \<lparr>c_localStream = None, c_peerConnection = None\<rparr> d"
  by (simp add: apart_def)

lemma modal_ok_cleanup_closure:
  assumes "modal_ok m w"
  shows "modal_ok (fst (cleanup_closure c (m, w))) (snd (cleanup_closure c (m, w)))"
proof -
  have "modal_ok (m\<lparr>localStream := None, remoteStream := None, peerConnection := None\<rparr>) w"
    using assms by (simp add: modal_ok_def closure_of_def)
  then have "modal_ok (m\<lparr>localStream := None, remoteStream := None, peerConnection := None\<rparr>) (snd (cleanup_closure c (m, w)))"
    by (rule modal_ok_keeps) (simp add: keeps_cleanup_closure)
  then show ?thesis
    by (simp add: cleanup_closure_def Let_def)
qed

lemma modal_ok_set_isOpen:
  assumes "modal_ok m w"
  shows "modal_ok (fst (set_isOpen b (m, w))) (snd (set_isOpen b (m, w)))"
proof (cases "isOpen m = b")
  case True
  with assms show ?thesis by (simp add: set_isOpen_eq)
next
  case False
  let ?m = "m\<lparr>isOpen := b, localStream := None, remoteStream := None, peerConnection := None,
      pendingMedia := (if b then pendingMedia m @ [(isVideoCall m, True)] else pendingMedia m),
      effectCleanup := closure_of m\<rparr>"
  have "modal_ok ?m w"
    using assms by (simp add: modal_ok_def closure_of_def)
  then have "modal_ok ?m (snd (set_isOpen b (m, w)))"
    by (rule modal_ok_keeps) (simp add: keeps_set_isOpen)
  moreover have "fst (set_isOpen b (m, w)) = ?m"
    using False by (simp add: set_isOpen_eq Let_def cleanup_closure_def initializeCall_begin_def)
  ultimately show ?thesis by simp
qed

lemma modal_ok_endCall:
  assumes "modal_ok m w"
  shows "modal_ok (fst (endCall (m, w))) (snd (endCall (m, w)))"
  using modal_ok_set_isOpen [OF modal_ok_cleanup_closure [OF assms], of False "closure_of m"]
  by (simp add: endCall_def cleanup_def)

lemma upt_two: "[n ..< n + 2] = [n, Suc n]"
  by (simp add: upt_rec)

lemma user_media_video:
  "user_media True True w =
     ([length (tracks w), Suc (length (tracks w))],
      w\<lparr>tracks := tracks w @ [new_track Audio Microphone, new_track Video Camera]\<rparr>)"
  by (simp add: user_media_def Let_def upt_two)

lemma user_media_audio:
  "user_media False True w =
     ([length (tracks w)], w\<lparr>tracks := tracks w @ [new_track Audio Microphone]\<rparr>)"
  by (simp add: user_media_def Let_def)

lemma user_media_stream_ok: "stream_ok v (snd (user_media v True w)) (fst (user_media v True w))"
  by (cases v)
    (simp_all add: user_media_video user_media_audio stream_ok_def getAudioTracks_def getVideoTracks_def
      track_kind_def nth_append new_track_def)

lemma user_media_fresh: "x \<in> set (fst (user_media v a w)) \<Longrightarrow> length (tracks w) \<le> x"
  by (auto simp add: user_media_def Let_def)

lemma modal_ok_initializeCall_resume:
  assumes "modal_ok m w" "pendingMedia m = c # cs"
  shows "modal_ok (fst (initializeCall_resume c out (m\<lparr>pendingMedia := cs\<rparr>, w)))
                  (snd (initializeCall_resume c out (m\<lparr>pendingMedia := cs\<rparr>, w)))"
proof (cases out)
  case Denied
  have "modal_ok (m\<lparr>pendingMedia := cs\<rparr>) w"
    using assms by (simp add: modal_ok_def closure_of_def)
  with Denied show ?thesis
    by (simp add: initializeCall_resume_denied modal_ok_keeps keeps_emit)
next
  case Granted
  from assms have c: "c = (isVideoCall m, True)"
    by (simp add: modal_ok_def)
  let ?s = "fst (user_media (isVideoCall m) True w)"
  let ?w1 = "snd (user_media (isVideoCall m) True w)"
  let ?p = "length (conns w)"
  let ?w3 = "fold (pc_addTrack ?p) ?s (snd (new_pc ?w1))"
  let ?m = "m\<lparr>pendingMedia := cs, localStream := Some ?s, peerConnection := Some ?p\<rparr>"
  have k1: "keeps w ?w3"
    by (intro keeps_intros keeps_refl)
  have k2: "keeps ?w1 ?w3"
    by (intro keeps_intros keeps_refl)
  have s: "stream_ok (isVideoCall m) ?w3 ?s"
    using user_media_stream_ok k2 by (rule stream_ok_keeps)
  have e: "closure_ok ?w3 (effectCleanup m)"
    using assms(1) k1 by (auto simp add: modal_ok_def intro: closure_ok_keeps)
  have n: "closure_ok ?w3 (closure_of ?m)"
    using s by (simp add: closure_ok_def closure_of_def stream_ok_def)
  have a: "apart (closure_of ?m) (effectCleanup m)"
    using assms(1) user_media_fresh [of _ "isVideoCall m" True w]
    by (fastforce simp add: apart_def closure_of_def modal_ok_def closure_ok_def)
  have "modal_ok ?m ?w3"
    using assms s e n a by (simp add: modal_ok_def)
  with Granted c show ?thesis
    by (simp add: initializeCall_resume_granted)
qed

lemma modal_ok_irrelevant [simp]:
  "modal_ok (m\<lparr>isMuted := x1\<rparr>) w = modal_ok m w"
  "modal_ok (m\<lparr>isVideoEnabled := x2\<rparr>) w = modal_ok m w"
  "modal_ok (m\<lparr>isScreenSharing := x3\<rparr>) w = modal_ok m w"
  "modal_ok (m\<lparr>remoteStream := x4\<rparr>) w = modal_ok m w"
  "modal_ok (m\<lparr>pendingScreen := x5\<rparr>) w = modal_ok m w"
  by (simp_all add: modal_ok_def closure_of_def)

lemma modal_ok_frame:
  "modal_ok m w \<Longrightarrow> modal_ok m' w = modal_ok m w \<Longrightarrow> keeps w w' \<Longrightarrow> modal_ok m' w'"
  using modal_ok_keeps by blast

lemma fst_toggleScreenShare_begin:
  "fst (toggleScreenShare_begin (m, w)) =
     (if \<not> isScreenSharing m then m\<lparr>pendingScreen := pendingScreen m @ [closure_of m]\<rparr>
      else m\<lparr>isScreenSharing := False\<rparr>)"
  by (simp add: toggleScreenShare_begin_def Let_def)

lemma fst_toggleScreenShare_resume:
  "fst (toggleScreenShare_resume tg c out (m, w)) = (case out of Denied \<Rightarrow> m | Granted \<Rightarrow> m\<lparr>isScreenSharing := True\<rparr>)"
  by (cases out) (simp_all add: toggleScreenShare_resume_granted toggleScreenShare_resume_denied Let_def)

lemma fst_screen_ended: "fst (screen_ended sd ls (m, w)) = m\<lparr>isScreenSharing := False\<rparr>"
  by (simp add: screen_ended_def Let_def)

lemma modal_ok_toggleScreenShare_begin:
  "modal_ok m w \<Longrightarrow> modal_ok (fst (toggleScreenShare_begin (m, w))) (snd (toggleScreenShare_begin (m, w)))"
  by (rule modal_ok_frame [of m w]) (simp_all add: fst_toggleScreenShare_begin keeps_toggleScreenShare_begin)

lemma modal_ok_toggleScreenShare_resume:
  "modal_ok m w \<Longrightarrow>
   modal_ok (fst (toggleScreenShare_resume tg c out (m\<lparr>pendingScreen := cs\<rparr>, w)))
            (snd (toggleScreenShare_resume tg c out (m\<lparr>pendingScreen := cs\<rparr>, w)))"
  by (rule modal_ok_frame [of m w])
    (simp_all add: fst_toggleScreenShare_resume keeps_toggleScreenShare_resume split: outcome.splits)

lemma modal_ok_screen_ended:
  "modal_ok m w \<Longrightarrow> modal_ok (fst (screen_ended sd ls (m, w))) (snd (screen_ended sd ls (m, w)))"
  by (rule modal_ok_frame [of m w]) (simp_all add: fst_screen_ended keeps_screen_ended)

lemma modal_ok_ontrack:
  "modal_ok m w \<Longrightarrow> modal_ok (fst (ontrack streams (m, w))) (snd (ontrack streams (m, w)))"
  by (simp add: ontrack_def)

lemma modal_ok_onicecandidate:
  "modal_ok m w \<Longrightarrow> modal_ok (fst (onicecandidate c (m, w))) (snd (onicecandidate c (m, w)))"
  by (simp add: onicecandidate_def modal_ok_keeps keeps_emit split: option.splits)

lemma modal_ok_toggleMute: "modal_ok m w \<Longrightarrow> toggleMute (m, w) = Inr (m', w') \<Longrightarrow> modal_ok m' w'"
  by (rule modal_ok_frame [of m w])
    (auto simp add: keeps_toggleMute [OF keeps_refl] simp add: toggleMute_def Let_def split: option.splits)

lemma modal_ok_toggleVideo: "modal_ok m w \<Longrightarrow> toggleVideo (m, w) = Inr (m', w') \<Longrightarrow> modal_ok m' w'"
  by (rule modal_ok_frame [of m w])
    (auto simp add: keeps_toggleVideo [OF keeps_refl] simp add: toggleVideo_def Let_def split: option.splits)

subsection \<open>Every reachable page is well formed\<close>

lemma isVideoCall_handlers [simp]:
  "isVideoCall (fst (cleanup_closure c (m, w))) = isVideoCall m"
  "isVideoCall (fst (set_isOpen b (m, w))) = isVideoCall m"
  "isVideoCall (fst (initializeCall_resume cn out (m, w))) = isVideoCall m"
  "isVideoCall (fst (toggleScreenShare_begin (m, w))) = isVideoCall m"
  "isVideoCall (fst (toggleScreenShare_resume tg c out (m, w))) = isVideoCall m"
  "isVideoCall (fst (screen_ended sd ls (m, w))) = isVideoCall m"
  "isVideoCall (fst (ontrack streams (m, w))) = isVideoCall m"
  "isVideoCall (fst (onicecandidate cd (m, w))) = isVideoCall m"
  by (cases out; simp add: cleanup_closure_def set_isOpen_eq initializeCall_begin_def Let_def
      initializeCall_resume_granted initializeCall_resume_denied fst_toggleScreenShare_begin
      fst_toggleScreenShare_resume fst_screen_ended ontrack_def onicecandidate_def
      split: option.splits)+

lemma isVideoCall_endCall [simp]: "isVideoCall (fst (endCall (m, w))) = isVideoCall m"
  using isVideoCall_handlers(2) [of False "fst (cleanup (m, w))" "snd (cleanup (m, w))"]
  by (simp add: endCall_def cleanup_def)

lemma isVideoCall_toggleMute: "toggleMute (m, w) = Inr (m', w') \<Longrightarrow> isVideoCall m' = isVideoCall m"
  by (auto simp add: toggleMute_def Let_def split: option.splits)

lemma isVideoCall_toggleVideo: "toggleVideo (m, w) = Inr (m', w') \<Longrightarrow> isVideoCall m' = isVideoCall m"
  by (auto simp add: toggleVideo_def Let_def split: option.splits)

lemma page_ok_alt:
  "page_ok pg \<longleftrightarrow>
     (\<forall>tg. modal_ok (get_modal tg pg) (env pg) \<and> isVideoCall (get_modal tg pg) = (tg = VideoModal)) \<and>
     world_ok (env pg) \<and> quiet (env pg)"
proof -
  have "(\<forall>tg. P tg) \<longleftrightarrow> P VideoModal \<and> P AudioModal" for P
    by (metis target.exhaust)
  then show ?thesis
    by (auto simp add: page_ok_def get_modal_def)
qed

lemma page_ok_put:
  assumes "page_ok pg"
    and "modal_ok m' w'" "world_ok w'" "keeps (env pg) w'" "quiet w'"
    and "isVideoCall m' = isVideoCall (get_modal tg pg)"
  shows "page_ok (put tg (m', w') pg)"
  unfolding page_ok_alt
proof (intro conjI allI)
  fix tg'
  show "modal_ok (get_modal tg' (put tg (m', w') pg)) (env (put tg (m', w') pg))"
    using assms by (cases "tg' = tg") (auto simp add: page_ok_alt intro: modal_ok_keeps)
  show "isVideoCall (get_modal tg' (put tg (m', w') pg)) = (tg' = VideoModal)"
    using assms by (cases "tg' = tg") (auto simp add: page_ok_alt)
qed (use assms in simp_all)

lemma page_ok_on_modal:
  assumes "page_ok pg"
    and "\<And>m w. modal_ok m w \<Longrightarrow> modal_ok (fst (f (m, w))) (snd (f (m, w)))"
    and "\<And>m w. world_ok w \<Longrightarrow> world_ok (snd (f (m, w)))"
    and "\<And>m w. keeps w (snd (f (m, w)))"
    and "\<And>m w. quiet (snd (f (m, w))) = quiet w"
    and "\<And>m w. isVideoCall (fst (f (m, w))) = isVideoCall m"
  shows "page_ok (on_modal tg f pg)"
proof -
  have "page_ok (put tg (fst (f (get_modal tg pg, env pg)), snd (f (get_modal tg pg, env pg))) pg)"
    using assms(1) by (rule page_ok_put) (use assms in \<open>simp_all add: page_ok_alt\<close>)
  then show ?thesis by (simp add: on_modal_def)
qed

lemma page_ok_try_modal:
  assumes "page_ok pg"
    and "\<And>m w m' w'. f (m, w) = Inr (m', w') \<Longrightarrow> modal_ok m w \<Longrightarrow> modal_ok m' w'"
    and "\<And>m w m' w'. f (m, w) = Inr (m', w') \<Longrightarrow> world_ok w \<Longrightarrow> world_ok w'"
    and "\<And>m w m' w'. f (m, w) = Inr (m', w') \<Longrightarrow> keeps w w'"
    and "\<And>m w m' w'. f (m, w) = Inr (m', w') \<Longrightarrow> quiet w' = quiet w"
    and "\<And>m w m' w'. f (m, w) = Inr (m', w') \<Longrightarrow> isVideoCall m' = isVideoCall m"
  shows "page_ok (try_modal tg f pg)"
proof (cases "f (get_modal tg pg, env pg)")
  case (Inl e)
  with assms(1) show ?thesis by (simp add: try_modal_def)
next
  case (Inr mw)
  obtain m' w' where mw: "mw = (m', w')" by (cases mw)
  have "page_ok (put tg (m', w') pg)"
    using assms(1)
    by (rule page_ok_put) (use assms Inr mw in \<open>auto simp add: page_ok_alt\<close>)
  with Inr mw show ?thesis by (simp add: try_modal_def)
qed

lemma page_ok_init: "page_ok init_page"
  by (simp add: page_ok_def init_page_def init_modal_def modal_ok_def closure_of_def
      world_ok_def senders_ok_def handlers_ok_def quiet_def)

lemma page_ok_step:
  assumes "page_ok pg"
  shows "page_ok (step e pg)"
proof (cases e)
  case (ClickCall tg)
  with assms show ?thesis
    by (simp add: step_def page_ok_on_modal modal_ok_set_isOpen world_ok_set_isOpen keeps_set_isOpen)
next
  case (Dismiss tg)
  with assms show ?thesis
    by (simp add: step_def page_ok_on_modal modal_ok_set_isOpen world_ok_set_isOpen keeps_set_isOpen)
next
  case (MediaSettled tg out)
  show ?thesis
  proof (cases "pendingMedia (get_modal tg pg)")
    case Nil
    with assms MediaSettled show ?thesis by (simp add: step_def)
  next
    case (Cons c cs)
    let ?m = "get_modal tg pg" and ?w = "env pg"
    let ?r = "initializeCall_resume c out (?m\<lparr>pendingMedia := cs\<rparr>, ?w)"
    from assms have "modal_ok ?m ?w" by (simp add: page_ok_alt)
    then have "page_ok (put tg (fst ?r, snd ?r) pg)"
      using assms Cons
      by (intro page_ok_put modal_ok_initializeCall_resume world_ok_initializeCall_resume
          keeps_initializeCall_resume) (simp_all add: page_ok_alt)
    with MediaSettled Cons show ?thesis
      by (simp add: step_def on_modal_def)
  qed
next
  case (ScreenSettled tg out)
  show ?thesis
  proof (cases "pendingScreen (get_modal tg pg)")
    case Nil
    with assms ScreenSettled show ?thesis by (simp add: step_def)
  next
    case (Cons c cs)
    let ?m = "get_modal tg pg" and ?w = "env pg"
    let ?r = "toggleScreenShare_resume tg c out (?m\<lparr>pendingScreen := cs\<rparr>, ?w)"
    from assms have "modal_ok ?m ?w" by (simp add: page_ok_alt)
    then have "page_ok (put tg (fst ?r, snd ?r) pg)"
      using assms Cons
      by (intro page_ok_put modal_ok_toggleScreenShare_resume world_ok_toggleScreenShare_resume
          keeps_toggleScreenShare_resume) (simp_all add: page_ok_alt)
    with ScreenSettled Cons show ?thesis
      by (simp add: step_def on_modal_def)
  qed
next
  case (RemoteTrack tg streams)
  with assms show ?thesis
    by (simp add: step_def page_ok_on_modal modal_ok_ontrack world_ok_ontrack keeps_ontrack)
next
  case (IceCandidate tg c)
  with assms show ?thesis
    by (simp add: step_def page_ok_on_modal modal_ok_onicecandidate world_ok_onicecandidate keeps_onicecandidate)
next
  case (ClickMute tg)
  with assms show ?thesis
    by (simp add: step_def)
      (rule page_ok_try_modal; (assumption | erule (1) modal_ok_toggleMute world_ok_toggleMute | erule quiet_toggleMute isVideoCall_toggleMute keeps_toggleMute [OF keeps_refl]))
next
  case (ClickVideo tg)
  with assms show ?thesis
    by (simp add: step_def)
      (intro impI, rule page_ok_try_modal; (assumption | erule (1) modal_ok_toggleVideo world_ok_toggleVideo | erule quiet_toggleVideo isVideoCall_toggleVideo keeps_toggleVideo [OF keeps_refl]))
next
  case (ClickScreenShare tg)
  with assms show ?thesis
    by (simp add: step_def page_ok_on_modal modal_ok_toggleScreenShare_begin
        world_ok_toggleScreenShare_begin keeps_toggleScreenShare_begin)
next
  case (ClickHangUp tg)
  with assms show ?thesis
    by (simp add: step_def page_ok_on_modal modal_ok_endCall world_ok_endCall keeps_endCall)
next
  case (ScreenCaptureEnded v)
  let ?w = "env pg"
  let ?w1 = "?w\<lparr>tracks := (tracks ?w)[v := (tracks ?w ! v)\<lparr>ended := True\<rparr>]\<rparr>"
  let ?pg1 = "pg\<lparr>env := ?w1\<rparr>"
  have k: "keeps ?w ?w1" by (simp add: keeps_track_update)
  have "page_ok ?pg1"
    using assms modal_ok_keeps [OF _ k] unfolding page_ok_def
    by (simp add: world_ok_track_update)
  then have "page_ok (on_modal tg (screen_ended sd ls) ?pg1)" for tg sd ls
    by (simp add: page_ok_on_modal modal_ok_screen_ended world_ok_screen_ended keeps_screen_ended)
  with \<open>page_ok ?pg1\<close> assms ScreenCaptureEnded show ?thesis
    by (simp add: step_def Let_def split: option.splits onended_handler.splits)
next
  case (SignalArrives msg)
  with assms show ?thesis by (simp add: step_def)
qed

lemma reachable_page_ok: "reachable pg \<Longrightarrow> page_ok pg"
  by (induction rule: reachable.induct) (simp_all add: page_ok_init page_ok_step)

subsection \<open>Scenarios and reachable pages\<close>

lemmas eval_defs = init_page_def init_modal_def step_def on_modal_def try_modal_def
  set_isOpen_eq cleanup_closure_def closure_of_def initializeCall_begin_def
  initializeCall_resume_denied initializeCall_resume_granted user_media_video user_media_audio
  get_modal_def put_def new_pc_def pc_addTrack_def emit_def Let_def

lemma denied_page_value:
  "denied_page =
     \<lparr>videoModal = (init_modal True)\<lparr>isOpen := True\<rparr>, audioModal = init_modal False,
      env = \<lparr>tracks = [], conns = [],
             trace = [GetUserMedia True True, ConsoleError,
                      Toast ''Error'' ''Failed to access camera/microphone'']\<rparr>\<rparr>"
  by (simp add: denied_page_def eval_defs)

lemma call_page_value:
  "call_page =
     \<lparr>videoModal = (init_modal True)\<lparr>isOpen := True, localStream := Some [0, 1], peerConnection := Some 0\<rparr>,
      audioModal = init_modal False,
      env = \<lparr>tracks = [new_track Audio Microphone, new_track Video Camera],
             conns = [\<lparr>closed = False, senders = [Some 0, Some 1]\<rparr>],
             trace = [GetUserMedia True True, NewPeerConnection 0, AddTrack 0 0, AddTrack 0 1]\<rparr>\<rparr>"
  by (simp add: call_page_def eval_defs)

lemma active_page_value:
  "active_page =
     \<lparr>videoModal = (init_modal True)\<lparr>isOpen := True, localStream := Some [0, 1],
                                       remoteStream := Some 0, peerConnection := Some 0\<rparr>,
      audioModal = init_modal False,
      env = \<lparr>tracks = [new_track Audio Microphone, new_track Video Camera],
             conns = [\<lparr>closed = False, senders = [Some 0, Some 1]\<rparr>],
             trace = [GetUserMedia True True, NewPeerConnection 0, AddTrack 0 0, AddTrack 0 1]\<rparr>\<rparr>"
  by (simp add: active_page_def call_page_value step_def on_modal_def ontrack_def get_modal_def put_def init_modal_def)

lemma two_calls_page_value:
  "two_calls_page =
     \<lparr>videoModal = (init_modal True)\<lparr>isOpen := True, localStream := Some [0, 1], peerConnection := Some 0\<rparr>,
      audioModal = (init_modal False)\<lparr>isOpen := True, localStream := Some [2], peerConnection := Some 1\<rparr>,
      env = \<lparr>tracks = [new_track Audio Microphone, new_track Video Camera, new_track Audio Microphone],
             conns = [\<lparr>closed = False, senders = [Some 0, Some 1]\<rparr>, \<lparr>closed = False, senders = [Some 2]\<rparr>],
             trace = [GetUserMedia True True, NewPeerConnection 0, AddTrack 0 0, AddTrack 0 1,
                      GetUserMedia False True, NewPeerConnection 1, AddTrack 1 2]\<rparr>\<rparr>"
  by (simp add: two_calls_page_def eval_defs)

lemma reachable_run: "reachable pg \<Longrightarrow> reachable (run es pg)"
  by (induction es arbitrary: pg) (simp_all add: reachable_step)

lemma reachable_scenarios:
  "reachable denied_page" "reachable call_page" "reachable active_page" "reachable two_calls_page"
  by (simp_all add: denied_page_def call_page_def active_page_def two_calls_page_def
      reachable_run reachable_init reachable_step)

lemma reachable_modal_ok: "reachable pg \<Longrightarrow> modal_ok (get_modal tg pg) (env pg)"
  by (drule reachable_page_ok) (simp add: page_ok_alt)

lemma reachable_isVideoCall: "reachable pg \<Longrightarrow> isVideoCall (get_modal tg pg) = (tg = VideoModal)"
  by (drule reachable_page_ok) (simp add: page_ok_alt)

lemma reachable_world_ok: "reachable pg \<Longrightarrow> world_ok (env pg)"
  by (drule reachable_page_ok) (simp add: page_ok_alt)

lemma reachable_quiet: "reachable pg \<Longrightarrow> quiet (env pg)"
  by (drule reachable_page_ok) (simp add: page_ok_alt)

lemma reachable_stream_ok:
  "reachable pg \<Longrightarrow> localStream (get_modal tg pg) = Some s \<Longrightarrow> stream_ok (tg = VideoModal) (env pg) s"
  using reachable_modal_ok [of pg tg] reachable_isVideoCall [of pg tg]
  by (simp add: modal_ok_def)

lemma length_one: "length xs = Suc 0 \<Longrightarrow> \<exists>a. xs = [a]"
  by (cases xs) auto

lemma audio_track_of_stream:
  assumes "stream_ok v w s"
  shows "\<exists>a. getAudioTracks w s = [a] \<and> a < length (tracks w) \<and> kind (tracks w ! a) = Audio"
proof -
  from assms obtain a where a: "getAudioTracks w s = [a]"
    by (auto simp add: stream_ok_def dest: length_one)
  then have "a \<in> set (filter (\<lambda>t. track_kind w t = Some Audio) s)"
    by (simp add: getAudioTracks_def)
  then have "a < length (tracks w) \<and> kind (tracks w ! a) = Audio"
    by (auto simp add: track_kind_def split: if_splits)
  with a show ?thesis by blast
qed

lemma track_kind_enabled_update [simp]:
  "track_kind (w\<lparr>tracks := (tracks w)[a := (tracks w ! a)\<lparr>enabled := e\<rparr>]\<rparr>) = track_kind w"
  by (rule ext) (simp add: track_kind_def nth_update_field)

lemma getAudioTracks_enabled_update [simp]:
  "getAudioTracks (w\<lparr>tracks := (tracks w)[a := (tracks w ! a)\<lparr>enabled := e\<rparr>]\<rparr>) s = getAudioTracks w s"
  by (simp add: getAudioTracks_def)

lemma toggleMute_on_stream:
  assumes "localStream m = Some s" "getAudioTracks w s = [a]"
  shows "toggleMute (m, w) =
           Inr (m\<lparr>isMuted := enabled (tracks w ! a)\<rparr>,
                w\<lparr>tracks := (tracks w)[a := (tracks w ! a)\<lparr>enabled := \<not> enabled (tracks w ! a)\<rparr>]\<rparr>)"
  using assms by (simp add: toggleMute_def Let_def)

lemma trace_cleanup_closure:
  "trace (snd (cleanup_closure c (m, w))) = trace w @ cleanup_effects c"
  by (simp add: cleanup_closure_def cleanup_effects_def Let_def split: option.splits)

lemma trace_set_isOpen:
  "trace (snd (set_isOpen b (m, w))) =
     (if isOpen m = b then trace w
      else trace w @ cleanup_effects (effectCleanup m) @ (if b then [GetUserMedia (isVideoCall m) True] else []))"
  by (simp add: set_isOpen_eq Let_def initializeCall_begin_def split_def trace_cleanup_closure)

lemma fst_set_isOpen:
  "fst (set_isOpen b (m, w)) =
     (if isOpen m = b then m
      else m\<lparr>isOpen := b, localStream := None, remoteStream := None, peerConnection := None,
             pendingMedia := (if b then pendingMedia m @ [(isVideoCall m, True)] else pendingMedia m),
             effectCleanup := closure_of m\<rparr>)"
  by (simp add: set_isOpen_eq Let_def cleanup_closure_def initializeCall_begin_def)

lemma new_effects_append: "trace (env pg') = trace (env pg) @ es \<Longrightarrow> new_effects pg pg' = es"
  by (simp add: new_effects_def)

lemma quiet_no_relay:
  "quiet w \<Longrightarrow> SignalSend s \<notin> set (trace w) \<and> SetRemoteDescription p d \<notin> set (trace w) \<and>
     AddIceCandidate p c \<notin> set (trace w)"
  by (auto simp add: quiet_def list_ex_iff)

lemma spec_phase_Idle:
  "spec_phase m = Idle \<longleftrightarrow> pendingMedia m = [] \<and> localStream m = None \<and> \<not> isOpen m"
  by (auto simp add: spec_phase_def)

lemma cleanup_effects_no_new_pc: "NewPeerConnection p \<notin> set (cleanup_effects c)"
  by (auto simp add: cleanup_effects_def split: option.splits)

subsection \<open>Hanging up\<close>

lemma on_modal_put: "on_modal tg f (put tg mw pg) = put tg (f mw) pg"
  by (cases tg) (simp_all add: on_modal_def put_def get_modal_def)

lemma cleared_modal:
  "localStream m = None \<Longrightarrow> remoteStream m = None \<Longrightarrow> peerConnection m = None \<Longrightarrow>
   m\<lparr>localStream := None, remoteStream := None, peerConnection := None\<rparr> = m"
  by (cases m) simp

lemma fst_endCall:
  "fst (endCall (m, w)) =
     (if isOpen m
      then m\<lparr>isOpen := False, localStream := None, remoteStream := None, peerConnection := None,
             effectCleanup := \<lparr>c_localStream = None, c_peerConnection = None\<rparr>\<rparr>
      else m\<lparr>localStream := None, remoteStream := None, peerConnection := None\<rparr>)"
  by (simp add: endCall_def cleanup_def cleanup_closure_def Let_def set_isOpen_eq closure_of_def)

lemma snd_endCall:
  "snd (endCall (m, w)) =
     (let w1 = snd (cleanup_closure (closure_of m) (m, w))
      in if isOpen m then snd (cleanup_closure (effectCleanup m) (m, w1)) else w1)"
  by (simp add: endCall_def cleanup_def cleanup_closure_def Let_def set_isOpen_eq closure_of_def)

lemma trace_endCall:
  "trace (snd (endCall (m, w))) =
     trace w @ cleanup_effects (closure_of m) @ (if isOpen m then cleanup_effects (effectCleanup m) else [])"
  by (simp add: snd_endCall Let_def trace_cleanup_closure)

lemma endCall_again: "endCall (endCall (m, w)) = endCall (m, w)"
proof -
  obtain m1 w1 where e: "endCall (m, w) = (m1, w1)" by (cases "endCall (m, w)")
  then have "m1 = fst (endCall (m, w))" by simp
  then have f: "localStream m1 = None" "remoteStream m1 = None" "peerConnection m1 = None" "\<not> isOpen m1"
    by (simp_all add: fst_endCall)
  then have "endCall (m1, w1) = (m1, w1)"
    by (simp add: endCall_def cleanup_def cleanup_closure_def Let_def set_isOpen_eq closure_of_def cleared_modal)
  with e show ?thesis by simp
qed

lemma count_list_map_inj: "inj f \<Longrightarrow> count_list (map f xs) (f x) = count_list xs x"
  by (induction xs) (auto dest: injD)

lemma count_list_distinct: "distinct xs \<Longrightarrow> x \<in> set xs \<Longrightarrow> count_list xs x = 1"
  by (induction xs) auto

lemma count_cleanup_effects_stop:
  "count_list (cleanup_effects c) (StopTrack x) =
     (case c_localStream c of None \<Rightarrow> 0 | Some s \<Rightarrow> count_list s x)"
proof -
  have "inj StopTrack" by (simp add: inj_on_def)
  then show ?thesis
    by (auto simp add: cleanup_effects_def count_list_map_inj split: option.splits)
qed

lemma count_cleanup_effects_close:
  "count_list (cleanup_effects c) (ClosePc p) = (if c_peerConnection c = Some p then 1 else 0)"
proof -
  have "count_list (map StopTrack s) (ClosePc p) = 0" for s
    by (induction s) auto
  then show ?thesis
    by (auto simp add: cleanup_effects_def split: option.splits)
qed

lemma cleanup_closure_ended:
  "ended (tracks (snd (cleanup_closure c (m, w))) ! x) =
     (ended (tracks w ! x) \<or> (\<exists>s. c_localStream c = Some s \<and> x \<in> set s \<and> x < length (tracks w)))"
  by (auto simp add: cleanup_closure_def Let_def fold_track_stop_ended split: option.splits)

lemma cleanup_closure_closed:
  "closed (conns (snd (cleanup_closure c (m, w))) ! q) =
     (closed (conns w ! q) \<or> (c_peerConnection c = Some q \<and> q < length (conns w)))"
  by (auto simp add: cleanup_closure_def Let_def pc_close_closed split: option.splits)

lemma cleanup_closure_lengths [simp]:
  "length (tracks (snd (cleanup_closure c (m, w)))) = length (tracks w)"
  "length (conns (snd (cleanup_closure c (m, w)))) = length (conns w)"
  by (simp_all add: cleanup_closure_def Let_def split: option.splits)

lemma call_page_facts:
  "localStream (get_modal VideoModal call_page) = Some [0, 1]"
  "peerConnection (get_modal VideoModal call_page) = Some 0"
  by (simp_all add: call_page_value get_modal_def init_modal_def)

subsection \<open>The number of video senders\<close>

lemma video_count_same:
  assumes "senders_ok w" "keeps w w'" "p < length (conns w)"
    and "senders (conns w' ! p) = senders (conns w ! p)"
  shows "video_count w' p = video_count w p"
proof -
  have "is_video w' x = is_video w x" if "x \<in> set (senders (conns w ! p))" for x
    using assms(1,3) that by (intro is_video_keeps_eq [OF assms(2)]) (auto simp add: senders_ok_def)
  then have "filter (is_video w') (senders (conns w ! p)) = filter (is_video w) (senders (conns w ! p))"
    by (intro filter_cong) simp_all
  with assms(4) show ?thesis by (simp add: video_count_def)
qed

lemma length_filter_update:
  "i < length xs \<Longrightarrow> P (xs ! i) \<Longrightarrow> P y \<Longrightarrow> length (filter P (xs[i := y])) = length (filter P xs)"
proof (induction xs arbitrary: i)
  case Nil
  then show ?case by simp
next
  case (Cons x xs)
  then show ?case by (cases i) simp_all
qed

lemma video_count_replaceTrack:
  assumes "is_video w (Some v)"
    and "q < length (conns w) \<Longrightarrow> i < length (senders (conns w ! q)) \<Longrightarrow> is_video w (senders (conns w ! q) ! i)"
  shows "video_count (replaceTrack (q, i) v w) p = video_count w p"
proof (cases "p = q \<and> q < length (conns w) \<and> \<not> closed (conns w ! q) \<and> i < length (senders (conns w ! q))")
  case True
  with assms show ?thesis
    by (simp add: video_count_def replaceTrack_senders length_filter_update)
next
  case False
  then show ?thesis
    by (auto simp add: video_count_def replaceTrack_senders list_update_beyond)
qed

lemma video_count_replace_found:
  "is_video w (Some v) \<Longrightarrow> find_video_sender w pc = Some sd \<Longrightarrow>
   video_count (replaceTrack sd v w) p = video_count w p"
  by (cases sd) (auto dest: find_video_sender_Some intro: video_count_replaceTrack)

lemma senders_cleanup_closure [simp]:
  "senders (conns (snd (cleanup_closure c (m, w))) ! p) = senders (conns w ! p)"
  by (simp add: cleanup_closure_def Let_def split: option.splits)

lemma senders_set_isOpen [simp]:
  "senders (conns (snd (set_isOpen b (m, w))) ! p) = senders (conns w ! p)"
  by (simp add: set_isOpen_eq Let_def initializeCall_begin_def split_def)

lemma senders_endCall [simp]: "senders (conns (snd (endCall (m, w))) ! p) = senders (conns w ! p)"
  by (simp add: snd_endCall Let_def)

lemma senders_initializeCall_resume:
  "p < length (conns w) \<Longrightarrow>
   senders (conns (snd (initializeCall_resume c out (m, w))) ! p) = senders (conns w ! p)"
  by (cases out) (simp_all add: initializeCall_resume_granted initializeCall_resume_denied nth_append)

lemma conns_toggleMute: "toggleMute (m, w) = Inr (m', w') \<Longrightarrow> conns w' = conns w"
  by (auto simp add: toggleMute_def Let_def split: option.splits)

lemma conns_toggleVideo: "toggleVideo (m, w) = Inr (m', w') \<Longrightarrow> conns w' = conns w"
  by (auto simp add: toggleVideo_def Let_def split: option.splits)

lemma video_count_set_isOpen:
  "world_ok w \<Longrightarrow> p < length (conns w) \<Longrightarrow> video_count (snd (set_isOpen b (m, w))) p = video_count w p"
  by (rule video_count_same) (simp_all add: world_ok_def keeps_set_isOpen)

lemma video_count_endCall:
  "world_ok w \<Longrightarrow> p < length (conns w) \<Longrightarrow> video_count (snd (endCall (m, w))) p = video_count w p"
  by (rule video_count_same) (simp_all add: world_ok_def keeps_endCall)

lemma video_count_initializeCall_resume:
  "world_ok w \<Longrightarrow> p < length (conns w) \<Longrightarrow>
   video_count (snd (initializeCall_resume c out (m, w))) p = video_count w p"
  by (rule video_count_same)
    (simp_all add: world_ok_def keeps_initializeCall_resume senders_initializeCall_resume)

lemma video_count_toggleMute:
  "world_ok w \<Longrightarrow> p < length (conns w) \<Longrightarrow> toggleMute (m, w) = Inr (m', w') \<Longrightarrow>
   video_count w' p = video_count w p"
  by (rule video_count_same)
    (simp_all add: world_ok_def keeps_toggleMute [OF keeps_refl] conns_toggleMute)

lemma video_count_toggleVideo:
  "world_ok w \<Longrightarrow> p < length (conns w) \<Longrightarrow> toggleVideo (m, w) = Inr (m', w') \<Longrightarrow>
   video_count w' p = video_count w p"
  by (rule video_count_same)
    (simp_all add: world_ok_def keeps_toggleVideo [OF keeps_refl] conns_toggleVideo)

lemma video_count_emit [simp]: "video_count (emit es w) p = video_count w p"
  by (simp add: video_count_def)

lemma video_count_toggleScreenShare_begin:
  "video_count (snd (toggleScreenShare_begin (m, w))) p = video_count w p"
  by (auto simp add: toggleScreenShare_begin_def Let_def video_count_replace_found first_video_track_Some
      split: option.splits)

lemma video_count_screen_ended:
  assumes "\<And>q i. sd = Some (q, i) \<Longrightarrow>
      q < length (conns w) \<and> i < length (senders (conns w ! q)) \<and> is_video w (senders (conns w ! q) ! i)"
  shows "video_count (snd (screen_ended sd ls (m, w))) p = video_count w p"
  using assms
  by (auto simp add: screen_ended_def Let_def first_video_track_Some split: option.splits
      intro!: video_count_replaceTrack)

lemma video_count_toggleScreenShare_resume:
  assumes "world_ok w" "p < length (conns w)"
  shows "video_count (snd (toggleScreenShare_resume tg c out (m, w))) p = video_count w p"
proof (cases out)
  case Denied
  then show ?thesis by (simp add: toggleScreenShare_resume_denied)
next
  case Granted
  let ?w1 = "snd (display_media w)"
  let ?v = "length (tracks w)"
  let ?sd = "find_video_sender ?w1 (c_peerConnection c)"
  let ?w2 = "case ?sd of None \<Rightarrow> ?w1 | Some s \<Rightarrow> replaceTrack s ?v ?w1"
  let ?w3 = "?w2\<lparr>tracks := (tracks ?w2)[?v := (tracks ?w2 ! ?v)\<lparr>onended := Some (RevertToCamera tg ?sd (c_localStream c))\<rparr>]\<rparr>"
  have 1: "video_count ?w1 p = video_count w p"
    using assms by (intro video_count_same) (simp_all add: world_ok_def keeps_display_media)
  have 2: "video_count ?w2 p = video_count ?w1 p"
    by (simp add: video_count_replace_found is_video_new_screen split: option.splits)
  have w2: "world_ok ?w2"
    using assms(1) by (simp add: world_ok_display_media world_ok_replaceTrack is_video_new_screen split: option.splits)
  have "length (conns ?w2) = length (conns w)"
    by (simp split: option.splits)
  with assms(2) w2 have 3: "video_count ?w3 p = video_count ?w2 p"
    by (intro video_count_same) (simp_all add: world_ok_def keeps_track_update)
  from 1 2 3 Granted show ?thesis
    by (simp add: toggleScreenShare_resume_granted Let_def)
qed

subsection \<open>Finding the video sender again\<close>

lemma find_index_cong: "(\<And>x. x \<in> set xs \<Longrightarrow> Q x = P x) \<Longrightarrow> find_index Q xs = find_index P xs"
  by (induction xs) simp_all

lemma find_index_update:
  "find_index P xs = Some i \<Longrightarrow> P y \<Longrightarrow> find_index P (xs[i := y]) = Some i"
proof (induction xs arbitrary: i)
  case Nil
  then show ?case by simp
next
  case (Cons x xs)
  then show ?case by (cases i) (auto split: if_splits)
qed

lemma find_video_sender_keeps:
  assumes "senders_ok w" "keeps w w'" "p < length (conns w)"
    and "senders (conns w' ! p) = senders (conns w ! p)"
  shows "find_video_sender w' (Some p) = find_video_sender w (Some p)"
proof -
  have "is_video w' x = is_video w x" if "x \<in> set (senders (conns w ! p))" for x
    using assms(1,3) that by (intro is_video_keeps_eq [OF assms(2)]) (auto simp add: senders_ok_def)
  then have "find_index (is_video w') (senders (conns w ! p)) = find_index (is_video w) (senders (conns w ! p))"
    by (rule find_index_cong)
  with assms show ?thesis
    by (simp add: find_video_sender_def keeps_def)
qed

lemma find_video_sender_replaced:
  assumes "find_video_sender w (Some p) = Some (p, i)" "is_video w (Some v)"
  shows "find_video_sender (replaceTrack (p, i) v w) (Some p) = Some (p, i)"
  using assms
  by (auto simp add: find_video_sender_def replaceTrack_senders find_index_update split: if_splits)

lemma first_video_track_keeps:
  assumes "keeps w w'" "\<forall>x \<in> set s. x < length (tracks w)"
  shows "first_video_track w' (Some s) = first_video_track w (Some s)"
proof -
  from assms have "getVideoTracks w' s = getVideoTracks w s"
    by (auto simp add: getVideoTracks_def track_kind_keeps intro!: filter_cong)
  then show ?thesis by (simp add: first_video_track_def)
qed

lemma find_video_sender_cong:
  "is_video w' = is_video w \<Longrightarrow> conns w' = conns w \<Longrightarrow> find_video_sender w' pc = find_video_sender w pc"
  by (simp add: find_video_sender_def split: option.splits)



lemma active_page_facts:
  "localStream (get_modal VideoModal active_page) = Some [0, 1]"
  "peerConnection (get_modal VideoModal active_page) = Some 0"
  "\<not> closed (conns (env active_page) ! 0)"
  "\<not> isScreenSharing (get_modal VideoModal active_page)"
  "pendingScreen (get_modal VideoModal active_page) = []"
  "first_video_track (env active_page) (Some [0, 1]) = Some 1"
  "find_video_sender (env active_page) (Some 0) = Some (0, 1)"
  "senders (conns (env active_page) ! 0) ! 1 = Some 1"
  "length (tracks (env active_page)) = 2"
  by (simp_all add: active_page_value get_modal_def init_modal_def first_video_track_def
      getVideoTracks_def find_video_sender_def is_video_def track_kind_def new_track_def)

subsection \<open>The tracks of the two instances are apart\<close>

lemma own_bound: "modal_ok m w \<Longrightarrow> own m \<subseteq> {x. x < length (tracks w)}"
  by (auto simp add: own_def modal_ok_def closure_ok_def closure_of_def split: option.splits)

lemma own_irrelevant [simp]:
  "own (m\<lparr>isMuted := x1\<rparr>) = own m"
  "own (m\<lparr>isVideoEnabled := x2\<rparr>) = own m"
  "own (m\<lparr>isScreenSharing := x3\<rparr>) = own m"
  "own (m\<lparr>remoteStream := x4\<rparr>) = own m"
  "own (m\<lparr>pendingScreen := x5\<rparr>) = own m"
  "own (m\<lparr>pendingMedia := x6\<rparr>) = own m"
  "own (m\<lparr>peerConnection := x7\<rparr>) = own m"
  "own (m\<lparr>isOpen := x8\<rparr>) = own m"
  by (simp_all add: own_def)

lemma own_set_isOpen: "own (fst (set_isOpen b (m, w))) \<subseteq> own m"
  by (auto simp add: fst_set_isOpen own_def closure_of_def split: option.splits)

lemma own_endCall: "own (fst (endCall (m, w))) \<subseteq> own m"
  by (auto simp add: fst_endCall own_def split: option.splits)

lemma own_initializeCall_resume:
  "own (fst (initializeCall_resume c out (m, w))) \<subseteq> own m \<union> {x. length (tracks w) \<le> x}"
  by (cases out)
    (auto simp add: initializeCall_resume_granted initializeCall_resume_denied own_def
      dest: user_media_fresh split: option.splits)

lemma own_toggleMute: "toggleMute (m, w) = Inr (m', w') \<Longrightarrow> own m' = own m"
  by (auto simp add: toggleMute_def Let_def split: option.splits)

lemma own_toggleVideo: "toggleVideo (m, w) = Inr (m', w') \<Longrightarrow> own m' = own m"
  by (auto simp add: toggleVideo_def Let_def split: option.splits)

lemma own_on_modal:
  assumes "\<And>m w. own (fst (f (m, w))) \<subseteq> own m \<union> {x. length (tracks w) \<le> x}"
  shows "own (get_modal tg (on_modal tg' f pg)) \<subseteq> own (get_modal tg pg) \<union> {x. length (tracks (env pg)) \<le> x}"
  using assms [of "get_modal tg' pg" "env pg"]
  by (cases "tg = tg'") (auto simp add: on_modal_def)

lemma own_try_modal:
  assumes "\<And>m w m' w'. f (m, w) = Inr (m', w') \<Longrightarrow> own m' = own m"
  shows "own (get_modal tg (try_modal tg' f pg)) \<subseteq> own (get_modal tg pg)"
  using assms [of "get_modal tg' pg" "env pg"]
  by (cases "tg = tg'") (auto simp add: try_modal_def split: sum.splits)

lemma own_step:
  "own (get_modal tg (step e pg)) \<subseteq> own (get_modal tg pg) \<union> {x. length (tracks (env pg)) \<le> x}"
proof (cases e)
  case (ClickCall t)
  then show ?thesis using own_on_modal [of "set_isOpen True" tg t pg] own_set_isOpen
    by (simp add: step_def) blast
next
  case (Dismiss t)
  then show ?thesis using own_on_modal [of "set_isOpen False" tg t pg] own_set_isOpen
    by (simp add: step_def) blast
next
  case (MediaSettled t out)
  show ?thesis
  proof (cases "pendingMedia (get_modal t pg)")
    case Nil
    with MediaSettled show ?thesis by (simp add: step_def)
  next
    case (Cons c cs)
    have "own (get_modal tg (on_modal t (\<lambda>mw. initializeCall_resume c out ((fst mw)\<lparr>pendingMedia := cs\<rparr>, snd mw)) pg))
        \<subseteq> own (get_modal tg pg) \<union> {x. length (tracks (env pg)) \<le> x}"
    proof (rule own_on_modal)
      fix m w
      show "own (fst (initializeCall_resume c out ((fst (m, w))\<lparr>pendingMedia := cs\<rparr>, snd (m, w))))
          \<subseteq> own m \<union> {x. length (tracks w) \<le> x}"
        using own_initializeCall_resume [of c out "m\<lparr>pendingMedia := cs\<rparr>" w] by simp
    qed
    then show ?thesis using MediaSettled Cons by (simp add: step_def)
  qed
next
  case (ScreenSettled t out)
  show ?thesis
  proof (cases "pendingScreen (get_modal t pg)")
    case Nil
    with ScreenSettled show ?thesis by (simp add: step_def)
  next
    case (Cons c cs)
    have "own (get_modal tg (on_modal t (\<lambda>mw. toggleScreenShare_resume t c out ((fst mw)\<lparr>pendingScreen := cs\<rparr>, snd mw)) pg))
        \<subseteq> own (get_modal tg pg) \<union> {x. length (tracks (env pg)) \<le> x}"
      by (rule own_on_modal) (simp add: fst_toggleScreenShare_resume split: outcome.splits)
    with ScreenSettled Cons show ?thesis by (simp add: step_def)
  qed
next
  case (RemoteTrack t streams)
  have "own (get_modal tg (on_modal t (ontrack streams) pg)) \<subseteq> own (get_modal tg pg) \<union> {x. length (tracks (env pg)) \<le> x}"
    by (rule own_on_modal) (simp add: ontrack_def)
  with RemoteTrack show ?thesis by (simp add: step_def)
next
  case (IceCandidate t c)
  have "own (get_modal tg (on_modal t (onicecandidate c) pg)) \<subseteq> own (get_modal tg pg) \<union> {x. length (tracks (env pg)) \<le> x}"
    by (rule own_on_modal) (simp add: onicecandidate_def split: option.splits)
  with IceCandidate show ?thesis by (simp add: step_def)
next
  case (ClickMute t)
  have "own (get_modal tg (try_modal t toggleMute pg)) \<subseteq> own (get_modal tg pg)"
    by (rule own_try_modal) (rule own_toggleMute)
  with ClickMute show ?thesis by (auto simp add: step_def)
next
  case (ClickVideo t)
  have "own (get_modal tg (try_modal t toggleVideo pg)) \<subseteq> own (get_modal tg pg)"
    by (rule own_try_modal) (rule own_toggleVideo)
  with ClickVideo show ?thesis by (auto simp add: step_def)
next
  case (ClickScreenShare t)
  have "own (get_modal tg (on_modal t toggleScreenShare_begin pg)) \<subseteq> own (get_modal tg pg) \<union> {x. length (tracks (env pg)) \<le> x}"
    by (rule own_on_modal) (simp add: fst_toggleScreenShare_begin)
  with ClickScreenShare show ?thesis by (simp add: step_def)
next
  case (ClickHangUp t)
  then show ?thesis using own_on_modal [of endCall tg t pg] own_endCall
    by (simp add: step_def) blast
next
  case (ScreenCaptureEnded v)
  let ?w = "env pg"
  let ?pg1 = "pg\<lparr>env := ?w\<lparr>tracks := (tracks ?w)[v := (tracks ?w ! v)\<lparr>ended := True\<rparr>]\<rparr>\<rparr>"
  have g: "get_modal tg ?pg1 = get_modal tg pg"
    by (cases tg) (simp_all add: get_modal_def)
  have "own (get_modal tg (on_modal t (screen_ended sd ls) ?pg1)) \<subseteq> own (get_modal tg ?pg1) \<union> {x. length (tracks (env ?pg1)) \<le> x}"
    for t sd ls
    by (rule own_on_modal) (simp add: fst_screen_ended)
  then have *: "own (get_modal tg (on_modal t (screen_ended sd ls) ?pg1)) \<subseteq> own (get_modal tg pg) \<union> {x. length (tracks ?w) \<le> x}"
    for t sd ls
    by (simp add: g)
  show ?thesis
  proof (cases "v < length (tracks ?w) \<and> source (tracks ?w ! v) = Screen \<and> \<not> ended (tracks ?w ! v)")
    case False
    then have "step (ScreenCaptureEnded v) pg = pg"
      by (simp add: step_def del: de_Morgan_conj)
    with ScreenCaptureEnded show ?thesis by simp
  next
    case True
    show ?thesis
    proof (cases "onended (tracks ?w ! v)")
      case None
      with True ScreenCaptureEnded g show ?thesis by (simp add: step_def Let_def)
    next
      case (Some h)
      obtain t sd ls where h: "h = RevertToCamera t sd ls" by (cases h)
      from * [of t sd ls] True Some h ScreenCaptureEnded show ?thesis
        by (simp add: step_def Let_def)
    qed
  qed
next
  case (SignalArrives msg)
  then show ?thesis by (simp add: step_def)
qed

lemma get_modal_on_modal_other: "tg' \<noteq> tg \<Longrightarrow> get_modal tg' (on_modal tg f pg) = get_modal tg' pg"
  by (simp add: on_modal_def)

lemma get_modal_try_modal_other: "tg' \<noteq> tg \<Longrightarrow> get_modal tg' (try_modal tg f pg) = get_modal tg' pg"
  by (simp add: try_modal_def split: sum.splits)

lemma get_modal_env [simp]: "get_modal tg (pg\<lparr>env := w\<rparr>) = get_modal tg pg"
  by (cases tg) (simp_all add: get_modal_def)

lemma step_changes_one: "\<exists>tg. \<forall>tg'. tg' \<noteq> tg \<longrightarrow> get_modal tg' (step e pg) = get_modal tg' pg"
proof (cases e)
  case (ScreenCaptureEnded v)
  show ?thesis
  proof (cases "onended (tracks (env pg) ! v)")
    case None
    with ScreenCaptureEnded show ?thesis by (simp add: step_def Let_def)
  next
    case (Some h)
    obtain t sd ls where h: "h = RevertToCamera t sd ls" by (cases h)
    with Some ScreenCaptureEnded have "\<forall>tg'. tg' \<noteq> t \<longrightarrow> get_modal tg' (step e pg) = get_modal tg' pg"
      by (simp add: step_def Let_def get_modal_on_modal_other)
    then show ?thesis ..
  qed
next
  case (SignalArrives msg)
  then show ?thesis by (simp add: step_def)
next
  case (ClickCall t)
  then have "\<forall>tg'. tg' \<noteq> t \<longrightarrow> get_modal tg' (step e pg) = get_modal tg' pg"
    by (simp add: step_def get_modal_on_modal_other)
  then show ?thesis ..
next
  case (Dismiss t)
  then have "\<forall>tg'. tg' \<noteq> t \<longrightarrow> get_modal tg' (step e pg) = get_modal tg' pg"
    by (simp add: step_def get_modal_on_modal_other)
  then show ?thesis ..
next
  case (MediaSettled t out)
  then have "\<forall>tg'. tg' \<noteq> t \<longrightarrow> get_modal tg' (step e pg) = get_modal tg' pg"
    by (simp add: step_def get_modal_on_modal_other split: list.splits)
  then show ?thesis ..
next
  case (ScreenSettled t out)
  then have "\<forall>tg'. tg' \<noteq> t \<longrightarrow> get_modal tg' (step e pg) = get_modal tg' pg"
    by (simp add: step_def get_modal_on_modal_other split: list.splits)
  then show ?thesis ..
next
  case (RemoteTrack t streams)
  then have "\<forall>tg'. tg' \<noteq> t \<longrightarrow> get_modal tg' (step e pg) = get_modal tg' pg"
    by (simp add: step_def get_modal_on_modal_other)
  then show ?thesis ..
next
  case (IceCandidate t c)
  then have "\<forall>tg'. tg' \<noteq> t \<longrightarrow> get_modal tg' (step e pg) = get_modal tg' pg"
    by (simp add: step_def get_modal_on_modal_other)
  then show ?thesis ..
next
  case (ClickMute t)
  then have "\<forall>tg'. tg' \<noteq> t \<longrightarrow> get_modal tg' (step e pg) = get_modal tg' pg"
    by (simp add: step_def get_modal_try_modal_other)
  then show ?thesis ..
next
  case (ClickVideo t)
  then have "\<forall>tg'. tg' \<noteq> t \<longrightarrow> get_modal tg' (step e pg) = get_modal tg' pg"
    by (simp add: step_def get_modal_try_modal_other)
  then show ?thesis ..
next
  case (ClickScreenShare t)
  then have "\<forall>tg'. tg' \<noteq> t \<longrightarrow> get_modal tg' (step e pg) = get_modal tg' pg"
    by (simp add: step_def get_modal_on_modal_other)
  then show ?thesis ..
next
  case (ClickHangUp t)
  then have "\<forall>tg'. tg' \<noteq> t \<longrightarrow> get_modal tg' (step e pg) = get_modal tg' pg"
    by (simp add: step_def get_modal_on_modal_other)
  then show ?thesis ..
qed

lemma apart_step:
  assumes "A \<inter> B = {}" "A \<subseteq> {i. i < (n::nat)}" "B' \<subseteq> B \<union> {i. n \<le> i}"
  shows "A \<inter> B' = {}"
proof (rule ccontr)
  assume "A \<inter> B' \<noteq> {}"
  then obtain x where x: "x \<in> A" "x \<in> B'" by blast
  with assms(2,3) have "x < n" "x \<in> B \<or> n \<le> x" by blast+
  with x assms(1) show False by auto
qed

lemma reachable_own_apart:
  "reachable pg \<Longrightarrow> tg' \<noteq> tg \<Longrightarrow> own (get_modal tg pg) \<inter> own (get_modal tg' pg) = {}"
proof (induction arbitrary: tg tg' rule: reachable.induct)
  case reachable_init
  show ?case
    by (cases tg; cases tg') (simp_all add: own_def init_page_def init_modal_def get_modal_def)
next
  case (reachable_step pg e)
  obtain t where t: "\<forall>t'. t' \<noteq> t \<longrightarrow> get_modal t' (step e pg) = get_modal t' pg"
    using step_changes_one by blast
  have b: "own (get_modal x pg) \<subseteq> {i. i < length (tracks (env pg))}" for x
    using reachable_modal_ok [OF reachable_step.hyps] by (rule own_bound)
  have o: "own (get_modal x (step e pg)) \<subseteq> own (get_modal x pg) \<union> {i. length (tracks (env pg)) \<le> i}" for x
    by (rule own_step)
  have a: "own (get_modal tg pg) \<inter> own (get_modal tg' pg) = {}"
    using reachable_step.prems by (rule reachable_step.IH)
  from reachable_step.prems have "tg \<noteq> t \<or> tg' \<noteq> t" by auto
  then show ?case
  proof
    assume "tg \<noteq> t"
    with t have "get_modal tg (step e pg) = get_modal tg pg" by simp
    with apart_step [OF a b [of tg] o [of tg']] show ?thesis by simp
  next
    assume "tg' \<noteq> t"
    with t have "get_modal tg' (step e pg) = get_modal tg' pg" by simp
    with apart_step [OF _ b [of tg'] o [of tg]] a show ?thesis by (simp add: Int_commute)
  qed
qed

lemma ended_set_isOpen:
  "ended (tracks (snd (set_isOpen b (m, w))) ! x) =
     (ended (tracks w ! x) \<or>
      (isOpen m \<noteq> b \<and> (\<exists>s. c_localStream (effectCleanup m) = Some s \<and> x \<in> set s \<and> x < length (tracks w))))"
  by (simp add: set_isOpen_eq Let_def initializeCall_begin_def split_def cleanup_closure_ended)

lemma length_tracks_set_isOpen [simp]:
  "length (tracks (snd (set_isOpen b (m, w)))) = length (tracks w)"
  by (simp add: set_isOpen_eq Let_def initializeCall_begin_def split_def)

lemma tracks_initializeCall_resume:
  "x < length (tracks w) \<Longrightarrow> tracks (snd (initializeCall_resume c out (m, w))) ! x = tracks w ! x"
  by (cases out)
    (simp_all add: initializeCall_resume_granted initializeCall_resume_denied user_media_tracks nth_append)

lemma live_initializeCall_resume:
  "x < length (tracks w) \<Longrightarrow> live (snd (initializeCall_resume c out (m, w))) x = live w x"
  using keeps_initializeCall_resume [OF keeps_refl, of w c out m]
  by (auto simp add: live_def tracks_initializeCall_resume keeps_def)

lemma holds_capture_cong:
  "(\<And>s x. localStream m = Some s \<Longrightarrow> x \<in> set s \<Longrightarrow> live w' x = live w x) \<Longrightarrow>
   holds_capture m w' = holds_capture m w"
  by (auto simp add: holds_capture_def list_ex_iff split: option.splits)

subsection \<open>Closing the dialog without hanging up\<close>

text \<open>
  When the dialog of a running call is closed through onOpenChange, cleanup runs only
  from the effect, with the closure of the render that opened the modal: it finds no
  stream and no connection there, so it makes no call, and the tracks stay live and the
  connection open while the state of the instance is cleared.
\<close>

lemma dismiss_stops_nothing:
  "new_effects call_page (step (Dismiss VideoModal) call_page) = [] \<and>
   live (env (step (Dismiss VideoModal) call_page)) 0 \<and>
   live (env (step (Dismiss VideoModal) call_page)) 1 \<and>
   \<not> closed (conns (env (step (Dismiss VideoModal) call_page)) ! 0) \<and>
   localStream (get_modal VideoModal (step (Dismiss VideoModal) call_page)) = None"
  by (simp add: call_page_value new_effects_def live_def step_def on_modal_def set_isOpen_eq
      cleanup_closure_def closure_of_def get_modal_def put_def init_modal_def new_track_def Let_def)

lemma video_count_step:
  assumes "reachable pg" and "p < length (conns (env pg))"
  shows "video_count (env (step e pg)) p = video_count (env pg) p"
proof -
  have ok: "world_ok (env pg)" using assms(1) by (rule reachable_world_ok)
  show ?thesis
  proof (cases e)
    case (ClickCall tg)
    with ok assms(2) show ?thesis by (simp add: step_def on_modal_def video_count_set_isOpen)
  next
    case (Dismiss tg)
    with ok assms(2) show ?thesis by (simp add: step_def on_modal_def video_count_set_isOpen)
  next
    case (MediaSettled tg out)
    with ok assms(2) show ?thesis
      by (simp add: step_def on_modal_def video_count_initializeCall_resume split: list.splits)
  next
    case (ScreenSettled tg out)
    with ok assms(2) show ?thesis
      by (simp add: step_def on_modal_def video_count_toggleScreenShare_resume split: list.splits)
  next
    case (RemoteTrack tg streams)
    then show ?thesis by (simp add: step_def on_modal_def ontrack_def)
  next
    case (IceCandidate tg c)
    then show ?thesis by (simp add: step_def on_modal_def onicecandidate_def split: option.splits)
  next
    case (ClickMute tg)
    with ok assms(2) show ?thesis
      by (auto simp add: step_def try_modal_def video_count_toggleMute split: sum.splits)
  next
    case (ClickVideo tg)
    with ok assms(2) show ?thesis
      by (auto simp add: step_def try_modal_def video_count_toggleVideo split: sum.splits)
  next
    case (ClickScreenShare tg)
    then show ?thesis by (simp add: step_def on_modal_def video_count_toggleScreenShare_begin)
  next
    case (ClickHangUp tg)
    with ok assms(2) show ?thesis by (simp add: step_def on_modal_def video_count_endCall)
  next
    case (ScreenCaptureEnded v)
    let ?w = "env pg"
    let ?w1 = "?w\<lparr>tracks := (tracks ?w)[v := (tracks ?w ! v)\<lparr>ended := True\<rparr>]\<rparr>"
    have k: "keeps ?w ?w1" by (simp add: keeps_track_update)
    have 1: "video_count ?w1 p = video_count ?w p"
      using ok assms(2) k by (intro video_count_same) (simp_all add: world_ok_def)
    have ok1: "world_ok ?w1"
      using ok by (simp add: world_ok_track_update)
    have 2: "video_count (snd (screen_ended sd ls (m, ?w1))) p = video_count ?w1 p"
      if "v < length (tracks ?w)" "onended (tracks ?w ! v) = Some (RevertToCamera tg sd ls)" for tg sd ls m
    proof (rule video_count_screen_ended)
      fix q i
      assume "sd = Some (q, i)"
      with that have "onended (tracks ?w1 ! v) = Some (RevertToCamera tg (Some (q, i)) ls)" "v < length (tracks ?w1)"
        by simp_all
      with ok1 show "q < length (conns ?w1) \<and> i < length (senders (conns ?w1 ! q)) \<and> is_video ?w1 (senders (conns ?w1 ! q) ! i)"
        unfolding world_ok_def handlers_ok_def by blast
    qed
    show ?thesis
    proof (cases "v < length (tracks ?w) \<and> source (tracks ?w ! v) = Screen \<and> \<not> ended (tracks ?w ! v)")
      case False
      then have "step (ScreenCaptureEnded v) pg = pg"
        by (simp add: step_def del: de_Morgan_conj)
      with ScreenCaptureEnded show ?thesis by simp
    next
      case True
      show ?thesis
      proof (cases "onended (tracks ?w ! v)")
        case None
        with True 1 ScreenCaptureEnded show ?thesis by (simp add: step_def Let_def)
      next
        case (Some h)
        obtain tg sd ls where h: "h = RevertToCamera tg sd ls" by (cases h)
        from 2 [of tg sd ls] True Some h 1
        have "video_count (snd (screen_ended sd ls (m, ?w1))) p = video_count ?w p" for m
          by simp
        with True Some h ScreenCaptureEnded show ?thesis
          by (simp add: step_def Let_def on_modal_def)
      qed
    qed
  next
    case (SignalArrives msg)
    then show ?thesis by (simp add: step_def)
  qed
qed

subsection \<open>The connection of a video call carries one video track\<close>

lemma filter_map_Some: "filter (is_video w) (map Some s) = map Some (getVideoTracks w s)"
  by (induction s) (simp_all add: getVideoTracks_def is_video_def)

lemma video_count_new_connection:
  "video_count (snd (initializeCall_resume (v, True) Granted (m, w))) (length (conns w)) = (if v then 1 else 0)"
proof -
  let ?s = "fst (user_media v True w)" and ?w1 = "snd (user_media v True w)"
  have "length (getVideoTracks ?w1 ?s) = (if v then 1 else 0)"
    using user_media_stream_ok [of v w] by (simp add: stream_ok_def)
  then show ?thesis
    by (simp add: initializeCall_resume_granted video_count_def fold_addTrack_senders
        filter_map_Some)
qed

lemma peerConnection_step:
  assumes "peerConnection (get_modal tg (step e pg)) = Some p"
  shows "peerConnection (get_modal tg pg) = Some p \<or>
         (\<exists>c cs. e = MediaSettled tg Granted \<and> pendingMedia (get_modal tg pg) = c # cs \<and>
                 p = length (conns (env pg)))"
proof (cases e)
  case (ClickCall t)
  with assms show ?thesis
    by (cases "tg = t") (auto simp add: step_def on_modal_def fst_set_isOpen split: if_splits)
next
  case (Dismiss t)
  with assms show ?thesis
    by (cases "tg = t") (auto simp add: step_def on_modal_def fst_set_isOpen split: if_splits)
next
  case (MediaSettled t out)
  with assms show ?thesis
    by (cases "tg = t"; cases out)
      (auto simp add: step_def on_modal_def initializeCall_resume_granted initializeCall_resume_denied
        split: list.splits)
next
  case (ScreenSettled t out)
  with assms show ?thesis
    by (cases "tg = t")
      (auto simp add: step_def on_modal_def fst_toggleScreenShare_resume split: list.splits outcome.splits)
next
  case (RemoteTrack t streams)
  with assms show ?thesis
    by (cases "tg = t") (auto simp add: step_def on_modal_def ontrack_def)
next
  case (IceCandidate t c)
  with assms show ?thesis
    by (cases "tg = t") (auto simp add: step_def on_modal_def onicecandidate_def split: option.splits)
next
  case (ClickMute t)
  with assms show ?thesis
    by (cases "tg = t")
      (auto simp add: step_def try_modal_def toggleMute_def Let_def split: sum.splits option.splits)
next
  case (ClickVideo t)
  with assms show ?thesis
    by (cases "tg = t")
      (auto simp add: step_def try_modal_def toggleVideo_def Let_def split: sum.splits option.splits if_splits)
next
  case (ClickScreenShare t)
  with assms show ?thesis
    by (cases "tg = t")
      (auto simp add: step_def on_modal_def fst_toggleScreenShare_begin split: if_splits)
next
  case (ClickHangUp t)
  with assms show ?thesis
    by (cases "tg = t") (auto simp add: step_def on_modal_def fst_endCall split: if_splits)
next
  case (ScreenCaptureEnded v)
  show ?thesis
  proof (cases "v < length (tracks (env pg)) \<and> source (tracks (env pg) ! v) = Screen \<and> \<not> ended (tracks (env pg) ! v)")
    case False
    then have "step (ScreenCaptureEnded v) pg = pg"
      by (simp add: step_def del: de_Morgan_conj)
    with assms ScreenCaptureEnded show ?thesis by simp
  next
    case True
    show ?thesis
    proof (cases "onended (tracks (env pg) ! v)")
      case None
      with True assms ScreenCaptureEnded show ?thesis by (simp add: step_def Let_def)
    next
      case (Some h)
      obtain t sd ls where "h = RevertToCamera t sd ls" by (cases h)
      with True Some assms ScreenCaptureEnded show ?thesis
        by (cases "tg = t") (auto simp add: step_def Let_def on_modal_def fst_screen_ended)
    qed
  qed
next
  case (SignalArrives msg)
  with assms show ?thesis by (simp add: step_def)
qed

lemma video_call_one_video_track:
  "reachable pg \<Longrightarrow> peerConnection (get_modal tg pg) = Some p \<Longrightarrow>
   video_count (env pg) p = (if tg = VideoModal then 1 else 0)"
proof (induction arbitrary: tg p rule: reachable.induct)
  case reachable_init
  then show ?case
    by (cases tg) (simp_all add: init_page_def init_modal_def get_modal_def)
next
  case (reachable_step pg e)
  let ?m = "get_modal tg pg"
  from peerConnection_step [OF reachable_step.prems]
  show ?case
  proof
    assume old: "peerConnection ?m = Some p"
    then have "p < length (conns (env pg))"
      using reachable_modal_ok [OF reachable_step.hyps, of tg]
      by (simp add: modal_ok_def closure_ok_def closure_of_def)
    with reachable_step.hyps have "video_count (env (step e pg)) p = video_count (env pg) p"
      by (rule video_count_step)
    with reachable_step.IH [OF old] show ?thesis by simp
  next
    assume "\<exists>c cs. e = MediaSettled tg Granted \<and> pendingMedia ?m = c # cs \<and> p = length (conns (env pg))"
    then obtain c cs where e: "e = MediaSettled tg Granted" and c: "pendingMedia ?m = c # cs"
      and p: "p = length (conns (env pg))" by blast
    have "c = (tg = VideoModal, True)"
      using reachable_modal_ok [OF reachable_step.hyps, of tg] reachable_isVideoCall [OF reachable_step.hyps, of tg] c
      by (simp add: modal_ok_def)
    with e c p show ?thesis
      by (simp add: step_def on_modal_def video_count_new_connection)
  qed
qed

section \<open>The claims\<close>

subsection \<open>C10: the toggles without a local stream\<close>

text \<open>
  C10. In every state in which the local stream of an instance is absent (media not yet
  acquired, acquisition failed, or cleanup done), toggleMute and toggleVideo return
  without an error and leave the state of the instance and of the browser as they were;
  so do the clicks on the two buttons, for the whole page.
\<close>

theorem toggle_without_stream:
  assumes "localStream (get_modal tg pg) = None"
  shows "toggleMute (get_modal tg pg, env pg) = Inr (get_modal tg pg, env pg) \<and>
         toggleVideo (get_modal tg pg, env pg) = Inr (get_modal tg pg, env pg) \<and>
         step (ClickMute tg) pg = pg \<and> step (ClickVideo tg) pg = pg"
  using assms by (simp add: toggleMute_def toggleVideo_def step_def try_modal_def)

theorem toggle_without_stream_witness:
  "localStream (get_modal VideoModal denied_page) = None \<and>
   toggleMute (get_modal VideoModal denied_page, env denied_page) =
     Inr (get_modal VideoModal denied_page, env denied_page) \<and>
   toggleVideo (get_modal VideoModal denied_page, env denied_page) =
     Inr (get_modal VideoModal denied_page, env denied_page) \<and>
   step (ClickMute VideoModal) denied_page = denied_page \<and>
   step (ClickVideo VideoModal) denied_page = denied_page"
proof -
  have h: "localStream (get_modal VideoModal denied_page) = None"
    by (simp add: denied_page_def init_page_def init_modal_def step_def on_modal_def
        set_isOpen_eq cleanup_closure_def closure_of_def initializeCall_begin_def
        initializeCall_resume_denied get_modal_def put_def)
  from toggle_without_stream [OF h] h show ?thesis by simp
qed

subsection \<open>C5: the mute round trip\<close>

text \<open>
  C5. For every instance with an acquired local stream, in any reachable state: the
  stream has exactly one audio track; the mute button toggles without an error; two
  toggles return the enabled flag of the audio track to its original value; and after
  each toggle the isMuted flag is the negation of the enabled flag of the track. This
  holds in the unmuted state in particular.
\<close>

theorem mute_round_trip:
  assumes "reachable pg" and "localStream (get_modal tg pg) = Some s"
  shows "\<exists>a. getAudioTracks (env pg) s = [a] \<and>
           (let pg1 = step (ClickMute tg) pg; pg2 = step (ClickMute tg) pg1
            in toggleMute (get_modal tg pg, env pg) = Inr (get_modal tg pg1, env pg1) \<and>
               toggleMute (get_modal tg pg1, env pg1) = Inr (get_modal tg pg2, env pg2) \<and>
               enabled (tracks (env pg1) ! a) = (\<not> enabled (tracks (env pg) ! a)) \<and>
               enabled (tracks (env pg2) ! a) = enabled (tracks (env pg) ! a) \<and>
               isMuted (get_modal tg pg1) = (\<not> enabled (tracks (env pg1) ! a)) \<and>
               isMuted (get_modal tg pg2) = (\<not> enabled (tracks (env pg2) ! a)))"
proof -
  let ?m = "get_modal tg pg" and ?w = "env pg"
  from assms have "stream_ok (tg = VideoModal) ?w s"
    by (rule reachable_stream_ok)
  then obtain a where a: "getAudioTracks ?w s = [a]" "a < length (tracks ?w)"
    using audio_track_of_stream by blast
  let ?m1 = "?m\<lparr>isMuted := enabled (tracks ?w ! a)\<rparr>"
  let ?w1 = "?w\<lparr>tracks := (tracks ?w)[a := (tracks ?w ! a)\<lparr>enabled := \<not> enabled (tracks ?w ! a)\<rparr>]\<rparr>"
  have t1: "toggleMute (?m, ?w) = Inr (?m1, ?w1)"
    using assms(2) a(1) by (rule toggleMute_on_stream)
  have t2: "toggleMute (?m1, ?w1) =
      Inr (?m1\<lparr>isMuted := enabled (tracks ?w1 ! a)\<rparr>,
           ?w1\<lparr>tracks := (tracks ?w1)[a := (tracks ?w1 ! a)\<lparr>enabled := \<not> enabled (tracks ?w1 ! a)\<rparr>]\<rparr>)"
    using assms(2) a(1) by (intro toggleMute_on_stream) simp_all
  from a t1 t2 show ?thesis
    by (simp add: step_def try_modal_def Let_def)
qed

theorem mute_round_trip_witness:
  "reachable call_page \<and> localStream (get_modal VideoModal call_page) = Some [0, 1] \<and>
   getAudioTracks (env call_page) [0, 1] = [0] \<and>
   enabled (tracks (env call_page) ! 0) \<and>
   \<not> enabled (tracks (env (step (ClickMute VideoModal) call_page)) ! 0) \<and>
   isMuted (get_modal VideoModal (step (ClickMute VideoModal) call_page)) \<and>
   enabled (tracks (env (step (ClickMute VideoModal) (step (ClickMute VideoModal) call_page))) ! 0) \<and>
   \<not> isMuted (get_modal VideoModal (step (ClickMute VideoModal) (step (ClickMute VideoModal) call_page)))"
proof -
  have r: "reachable call_page" by (rule reachable_scenarios)
  have s: "localStream (get_modal VideoModal call_page) = Some [0, 1]"
    by (simp add: call_page_value get_modal_def init_modal_def)
  have a: "getAudioTracks (env call_page) [0, 1] = [0]"
    by (simp add: call_page_value getAudioTracks_def track_kind_def new_track_def)
  have e: "enabled (tracks (env call_page) ! 0)"
    by (simp add: call_page_value new_track_def)
  from mute_round_trip [OF r s] a e r s show ?thesis
    by (simp add: Let_def)
qed

subsection \<open>C9: the constraints of media acquisition\<close>

text \<open>
  C9. Opening the video instance calls getUserMedia with video and audio, opening the
  audio instance with audio only. When a pending request is granted, the local stream
  has exactly one audio track, and exactly one video track for the video instance and
  none for the audio instance.
\<close>

theorem acquisition_constraints:
  assumes "reachable pg"
  shows "(\<not> isOpen (get_modal tg pg) \<longrightarrow>
            last (trace (env (step (ClickCall tg) pg))) = GetUserMedia (tg = VideoModal) True \<and>
            pendingMedia (get_modal tg (step (ClickCall tg) pg)) \<noteq> []) \<and>
         (pendingMedia (get_modal tg pg) \<noteq> [] \<longrightarrow>
            (\<exists>s. localStream (get_modal tg (step (MediaSettled tg Granted) pg)) = Some s \<and>
                 length (getAudioTracks (env (step (MediaSettled tg Granted) pg)) s) = 1 \<and>
                 length (getVideoTracks (env (step (MediaSettled tg Granted) pg)) s) =
                   (if tg = VideoModal then 1 else 0)))"
proof (intro conjI impI)
  assume "\<not> isOpen (get_modal tg pg)"
  then show "last (trace (env (step (ClickCall tg) pg))) = GetUserMedia (tg = VideoModal) True"
    using reachable_isVideoCall [OF assms, of tg]
    by (simp add: step_def on_modal_def trace_set_isOpen)
next
  assume "\<not> isOpen (get_modal tg pg)"
  then show "pendingMedia (get_modal tg (step (ClickCall tg) pg)) \<noteq> []"
    by (simp add: step_def on_modal_def fst_set_isOpen)
next
  assume p: "pendingMedia (get_modal tg pg) \<noteq> []"
  let ?pg = "step (MediaSettled tg Granted) pg"
  from p obtain c cs where c: "pendingMedia (get_modal tg pg) = c # cs"
    by (cases "pendingMedia (get_modal tg pg)") auto
  then have "\<exists>s. localStream (get_modal tg ?pg) = Some s"
    by (simp add: step_def on_modal_def initializeCall_resume_granted)
  then obtain s where s: "localStream (get_modal tg ?pg) = Some s" ..
  have "reachable ?pg" using assms by (rule reachable_step)
  from reachable_stream_ok [OF this s] s
  show "\<exists>s. localStream (get_modal tg ?pg) = Some s \<and>
            length (getAudioTracks (env ?pg) s) = 1 \<and>
            length (getVideoTracks (env ?pg) s) = (if tg = VideoModal then 1 else 0)"
    by (simp add: stream_ok_def)
qed

theorem acquisition_constraints_witness:
  "reachable init_page \<and> \<not> isOpen (get_modal AudioModal init_page) \<and>
   last (trace (env (step (ClickCall AudioModal) init_page))) = GetUserMedia False True \<and>
   reachable (step (ClickCall AudioModal) init_page) \<and>
   pendingMedia (get_modal AudioModal (step (ClickCall AudioModal) init_page)) \<noteq> [] \<and>
   (\<exists>s. localStream (get_modal AudioModal
            (step (MediaSettled AudioModal Granted) (step (ClickCall AudioModal) init_page))) = Some s \<and>
        length (getAudioTracks (env (step (MediaSettled AudioModal Granted) (step (ClickCall AudioModal) init_page))) s) = 1 \<and>
        length (getVideoTracks (env (step (MediaSettled AudioModal Granted) (step (ClickCall AudioModal) init_page))) s) = 0)"
proof -
  have r0: "reachable init_page" by (rule reachable_init)
  have c: "\<not> isOpen (get_modal AudioModal init_page)"
    by (simp add: init_page_def init_modal_def get_modal_def)
  have r1: "reachable (step (ClickCall AudioModal) init_page)"
    using r0 by (rule reachable_step)
  from acquisition_constraints [OF r0, of AudioModal] acquisition_constraints [OF r1, of AudioModal] c r0 r1
  show ?thesis by simp
qed

subsection \<open>C6: the capture device is denied\<close>

text \<open>
  C6. When a call is started from the idle phase and getUserMedia is rejected, the
  phases are idle, requesting, ended. Beyond what the cleanup function of the previous
  effect does, the only calls are getUserMedia, console.error and the toast
  "Failed to access camera/microphone": no connection is created, the instance holds no
  connection and no stream, and no signaling message is sent.
\<close>

theorem device_denied:
  assumes "reachable pg" and "spec_phase (get_modal tg pg) = Idle"
  shows "let pg1 = step (ClickCall tg) pg; pg2 = step (MediaSettled tg Denied) pg1
         in spec_phase (get_modal tg pg1) = Requesting \<and>
            spec_phase (get_modal tg pg2) = Ended \<and>
            new_effects pg pg2 =
              cleanup_effects (effectCleanup (get_modal tg pg)) @
              [GetUserMedia (tg = VideoModal) True, ConsoleError,
               Toast ''Error'' ''Failed to access camera/microphone''] \<and>
            (\<forall>p. NewPeerConnection p \<notin> set (new_effects pg pg2)) \<and>
            length (conns (env pg2)) = length (conns (env pg)) \<and>
            peerConnection (get_modal tg pg2) = None \<and>
            localStream (get_modal tg pg2) = None \<and>
            (\<forall>s. SignalSend s \<notin> set (trace (env pg2)))"
proof -
  let ?m = "get_modal tg pg"
  let ?pg1 = "step (ClickCall tg) pg"
  let ?pg2 = "step (MediaSettled tg Denied) ?pg1"
  from assms(2) have idle: "pendingMedia ?m = []" "localStream ?m = None" "\<not> isOpen ?m"
    by (simp_all add: spec_phase_Idle)
  have v: "isVideoCall ?m = (tg = VideoModal)"
    using assms(1) by (rule reachable_isVideoCall)
  have m1: "get_modal tg ?pg1 =
      ?m\<lparr>isOpen := True, localStream := None, remoteStream := None, peerConnection := None,
          pendingMedia := [(tg = VideoModal, True)], effectCleanup := closure_of ?m\<rparr>"
    using idle v by (simp add: step_def on_modal_def fst_set_isOpen)
  have t1: "trace (env ?pg1) =
      trace (env pg) @ cleanup_effects (effectCleanup ?m) @ [GetUserMedia (tg = VideoModal) True]"
    using idle v by (simp add: step_def on_modal_def trace_set_isOpen)
  have c1: "length (conns (env ?pg1)) = length (conns (env pg))"
    using idle by (simp add: step_def on_modal_def set_isOpen_eq Let_def cleanup_closure_def
        initializeCall_begin_def split: option.splits)
  have pg2: "?pg2 = put tg (initializeCall_resume (tg = VideoModal, True) Denied
      ((get_modal tg ?pg1)\<lparr>pendingMedia := []\<rparr>, env ?pg1)) ?pg1"
    by (subst step_def) (simp add: m1 on_modal_def)
  have m2: "get_modal tg ?pg2 = (get_modal tg ?pg1)\<lparr>pendingMedia := []\<rparr>"
    by (subst pg2) (simp add: initializeCall_resume_denied)
  have t2: "trace (env ?pg2) =
      trace (env ?pg1) @ [ConsoleError, Toast ''Error'' ''Failed to access camera/microphone'']"
    by (subst pg2) (simp add: initializeCall_resume_denied)
  have c2: "conns (env ?pg2) = conns (env ?pg1)"
    by (subst pg2) (simp add: initializeCall_resume_denied)
  have n: "new_effects pg ?pg2 =
      cleanup_effects (effectCleanup ?m) @
      [GetUserMedia (tg = VideoModal) True, ConsoleError,
       Toast ''Error'' ''Failed to access camera/microphone'']"
    by (rule new_effects_append) (simp add: t2 t1)
  have "reachable ?pg2"
    using assms(1) by (intro reachable_step)
  then have q: "\<forall>s. SignalSend s \<notin> set (trace (env ?pg2))"
    using quiet_no_relay [OF reachable_quiet] by blast
  have "spec_phase (get_modal tg ?pg1) = Requesting"
    by (simp add: m1 spec_phase_def)
  moreover have "spec_phase (get_modal tg ?pg2) = Ended"
    by (simp add: m2 m1 spec_phase_def)
  moreover have "\<forall>p. NewPeerConnection p \<notin> set (new_effects pg ?pg2)"
    by (simp add: n cleanup_effects_no_new_pc)
  moreover have "peerConnection (get_modal tg ?pg2) = None" "localStream (get_modal tg ?pg2) = None"
    by (simp_all add: m2 m1)
  ultimately show ?thesis
    using n q c1 c2 by (simp add: Let_def)
qed

theorem device_denied_witness:
  "reachable init_page \<and> spec_phase (get_modal VideoModal init_page) = Idle \<and>
   spec_phase (get_modal VideoModal (step (ClickCall VideoModal) init_page)) = Requesting \<and>
   spec_phase (get_modal VideoModal denied_page) = Ended \<and>
   new_effects init_page denied_page =
     [GetUserMedia True True, ConsoleError, Toast ''Error'' ''Failed to access camera/microphone''] \<and>
   conns (env denied_page) = [] \<and>
   peerConnection (get_modal VideoModal denied_page) = None \<and>
   (\<forall>s. SignalSend s \<notin> set (trace (env denied_page)))"
proof -
  have r: "reachable init_page" by (rule reachable_init)
  have i: "spec_phase (get_modal VideoModal init_page) = Idle"
    by (simp add: spec_phase_def init_page_def init_modal_def get_modal_def)
  have d: "denied_page = step (MediaSettled VideoModal Denied) (step (ClickCall VideoModal) init_page)"
    by (simp add: denied_page_def)
  have e: "cleanup_effects (effectCleanup (get_modal VideoModal init_page)) = []"
    by (simp add: cleanup_effects_def init_page_def init_modal_def get_modal_def)
  have c: "conns (env init_page) = []"
    by (simp add: init_page_def)
  from device_denied [OF r i] r i show ?thesis
    by (simp add: Let_def d [symmetric] e c)
qed

subsection \<open>C1: local candidates\<close>

text \<open>
  C1, as stated, fails: the candidate 7 discovered on the connection of a video call is
  written to the console and is not sent to the peer.
\<close>

theorem candidate_only_logged:
  "new_effects call_page (step (IceCandidate VideoModal (Some 7)) call_page) = [ConsoleLog 7] \<and>
   SignalSend (Candidate 7) \<notin> set (trace (env (step (IceCandidate VideoModal (Some 7)) call_page)))"
  by (simp add: call_page_value new_effects_def step_def on_modal_def onicecandidate_def
      get_modal_def put_def emit_def)

text \<open>
  C1, amended. Every candidate the candidate-discovery callback receives is written to
  the console at once, and that is the only call made; the state of the instance does
  not change, and no signaling message is ever sent, the component having no signaling
  channel.
\<close>

theorem candidate_logged:
  assumes "reachable pg"
  shows "new_effects pg (step (IceCandidate tg (Some c)) pg) = [ConsoleLog c] \<and>
         get_modal tg (step (IceCandidate tg (Some c)) pg) = get_modal tg pg \<and>
         (\<forall>s. SignalSend s \<notin> set (trace (env (step (IceCandidate tg (Some c)) pg))))"
proof -
  have "reachable (step (IceCandidate tg (Some c)) pg)"
    using assms by (rule reachable_step)
  then have "\<forall>s. SignalSend s \<notin> set (trace (env (step (IceCandidate tg (Some c)) pg)))"
    using quiet_no_relay [OF reachable_quiet] by blast
  then show ?thesis
    by (simp add: new_effects_def step_def on_modal_def onicecandidate_def)
qed

theorem candidate_logged_witness:
  "reachable call_page \<and>
   new_effects call_page (step (IceCandidate VideoModal (Some 7)) call_page) = [ConsoleLog 7] \<and>
   get_modal VideoModal (step (IceCandidate VideoModal (Some 7)) call_page) = get_modal VideoModal call_page \<and>
   (\<forall>s. SignalSend s \<notin> set (trace (env (step (IceCandidate VideoModal (Some 7)) call_page))))"
  using candidate_logged [OF reachable_scenarios(2), of VideoModal 7] reachable_scenarios(2)
  by simp

subsection \<open>C3: candidates that arrive early\<close>

text \<open>
  C3, as stated, fails: a candidate message that arrives before the offer leaves the
  page as it was, so it is kept nowhere, and after the offer has arrived as well the
  candidate has not been applied to the connection and the call has not become active.
\<close>

theorem early_candidate_dropped:
  "run [SignalArrives (Candidate 7), SignalArrives (Offer 1)] call_page = call_page \<and>
   AddIceCandidate 0 7 \<notin> set (trace (env call_page)) \<and>
   remoteStream (videoModal call_page) = None"
  by (simp add: step_def call_page_value init_modal_def)

text \<open>
  C3, amended. An inbound signaling message of any kind changes nothing: the component
  is subscribed to no signaling channel, so a candidate is neither buffered nor applied
  and no remote description is ever set. The state reached does not depend on the order
  in which a candidate and a description arrive.
\<close>

theorem signaling_ignored:
  assumes "reachable pg"
  shows "step (SignalArrives msg) pg = pg \<and>
         run (SignalArrives a # SignalArrives b # es) pg = run (SignalArrives b # SignalArrives a # es) pg \<and>
         (\<forall>p c. AddIceCandidate p c \<notin> set (trace (env pg))) \<and>
         (\<forall>p d. SetRemoteDescription p d \<notin> set (trace (env pg)))"
  using quiet_no_relay [OF reachable_quiet [OF assms]]
  by (simp add: step_def)

theorem signaling_ignored_witness:
  "reachable call_page \<and> step (SignalArrives (Candidate 7)) call_page = call_page \<and>
   run [SignalArrives (Candidate 7), SignalArrives (Offer 1), RemoteTrack VideoModal [0]] call_page =
     run [SignalArrives (Offer 1), SignalArrives (Candidate 7), RemoteTrack VideoModal [0]] call_page \<and>
   (\<forall>p c. AddIceCandidate p c \<notin> set (trace (env call_page))) \<and>
   (\<forall>p d. SetRemoteDescription p d \<notin> set (trace (env call_page)))"
  using signaling_ignored [OF reachable_scenarios(2), of "Candidate 7" "Candidate 7" "Offer 1" "[RemoteTrack VideoModal [0]]"]
    reachable_scenarios(2)
  by blast

subsection \<open>C2: hanging up twice\<close>

text \<open>
  C2. For every instance that holds a local stream and a connection, in any reachable
  state: after two hang-ups in succession every track of the stream has been stopped by
  exactly one call of stop and has ended, the connection has been closed by exactly one
  call of close, and the second hang-up makes no call and changes nothing. One hang-up
  already runs cleanup twice, from endCall and from the effect that onClose re-runs; the
  second run finds nothing to release. cleanup has no error result: its two reads are
  guarded by the optional chaining. The source has no teardown triggered by an error.
  Closing the dialog by other means than the hang-up button is not covered here (see
  dismiss_stops_nothing).
\<close>

theorem hang_up_twice:
  assumes "reachable pg" and "localStream (get_modal tg pg) = Some s"
    and "peerConnection (get_modal tg pg) = Some p"
  shows "let pg1 = step (ClickHangUp tg) pg; pg2 = step (ClickHangUp tg) pg1
         in (\<forall>x \<in> set s. count_list (new_effects pg pg2) (StopTrack x) = 1 \<and> ended (tracks (env pg2) ! x)) \<and>
            count_list (new_effects pg pg2) (ClosePc p) = 1 \<and> closed (conns (env pg2) ! p) \<and>
            pg2 = pg1 \<and> new_effects pg1 pg2 = [] \<and>
            localStream (get_modal tg pg2) = None \<and> peerConnection (get_modal tg pg2) = None \<and>
            \<not> isOpen (get_modal tg pg2)"
proof -
  let ?m = "get_modal tg pg" and ?w = "env pg"
  let ?pg1 = "step (ClickHangUp tg) pg"
  have pg1: "?pg1 = put tg (endCall (?m, ?w)) pg"
    by (simp add: step_def on_modal_def)
  have "step (ClickHangUp tg) (put tg (endCall (?m, ?w)) pg) = put tg (endCall (?m, ?w)) pg"
    by (subst step_def) (simp add: on_modal_put endCall_again)
  then have pg2: "step (ClickHangUp tg) ?pg1 = ?pg1"
    by (simp only: pg1)
  have ok: "modal_ok ?m ?w"
    using assms(1) by (rule reachable_modal_ok)
  have so: "stream_ok (tg = VideoModal) ?w s"
    using assms(1,2) by (rule reachable_stream_ok)
  then have d: "distinct s" and b: "\<forall>x \<in> set s. x < length (tracks ?w)"
    by (simp_all add: stream_ok_def)
  from ok assms(3) have pb: "p < length (conns ?w)"
    by (simp add: modal_ok_def closure_ok_def closure_of_def)
  from ok have ap: "isOpen ?m \<Longrightarrow> apart (closure_of ?m) (effectCleanup ?m)"
    by (simp add: modal_ok_def)
  have n: "new_effects pg ?pg1 =
      cleanup_effects (closure_of ?m) @ (if isOpen ?m then cleanup_effects (effectCleanup ?m) else [])"
    by (rule new_effects_append) (simp add: pg1 trace_endCall)
  have stop: "count_list (new_effects pg ?pg1) (StopTrack x) = 1" if "x \<in> set s" for x
  proof -
    have "count_list (cleanup_effects (closure_of ?m)) (StopTrack x) = 1"
      using d that assms(2) by (simp add: count_cleanup_effects_stop closure_of_def count_list_distinct)
    moreover have "count_list (cleanup_effects (effectCleanup ?m)) (StopTrack x) = 0" if "isOpen ?m"
      using ap [OF that] assms(2) \<open>x \<in> set s\<close>
      by (auto simp add: count_cleanup_effects_stop apart_def closure_of_def count_list_0_iff
          split: option.splits)
    ultimately show ?thesis by (simp add: n)
  qed
  have close: "count_list (new_effects pg ?pg1) (ClosePc p) = 1"
  proof -
    have "count_list (cleanup_effects (closure_of ?m)) (ClosePc p) = 1"
      using assms(3) by (simp add: count_cleanup_effects_close closure_of_def)
    moreover have "count_list (cleanup_effects (effectCleanup ?m)) (ClosePc p) = 0" if "isOpen ?m"
      using ap [OF that] assms(3)
      by (simp add: count_cleanup_effects_close apart_def closure_of_def)
    ultimately show ?thesis by (simp add: n)
  qed
  have e: "ended (tracks (env ?pg1) ! x)" if "x \<in> set s" for x
    using that b assms(2)
    by (simp add: pg1 snd_endCall Let_def cleanup_closure_ended closure_of_def)
  have c: "closed (conns (env ?pg1) ! p)"
    using pb assms(3)
    by (simp add: pg1 snd_endCall Let_def cleanup_closure_closed closure_of_def)
  have f: "localStream (get_modal tg ?pg1) = None" "peerConnection (get_modal tg ?pg1) = None"
    "\<not> isOpen (get_modal tg ?pg1)"
    by (simp_all add: pg1 fst_endCall)
  from stop close e c f show ?thesis
    by (simp add: Let_def pg2 new_effects_def)
qed

theorem hang_up_twice_witness:
  "reachable call_page \<and> localStream (get_modal VideoModal call_page) = Some [0, 1] \<and>
   peerConnection (get_modal VideoModal call_page) = Some 0 \<and>
   count_list (new_effects call_page (step (ClickHangUp VideoModal) (step (ClickHangUp VideoModal) call_page))) (StopTrack 0) = 1 \<and>
   count_list (new_effects call_page (step (ClickHangUp VideoModal) (step (ClickHangUp VideoModal) call_page))) (StopTrack 1) = 1 \<and>
   count_list (new_effects call_page (step (ClickHangUp VideoModal) (step (ClickHangUp VideoModal) call_page))) (ClosePc 0) = 1 \<and>
   step (ClickHangUp VideoModal) (step (ClickHangUp VideoModal) call_page) = step (ClickHangUp VideoModal) call_page"
  using hang_up_twice [OF reachable_scenarios(2) call_page_facts] reachable_scenarios(2) call_page_facts
  by (auto simp add: Let_def)

subsection \<open>C4: one video track on the connection\<close>



subsection \<open>C7: sharing the screen and reverting to the camera\<close>

text \<open>
  C7. For a call whose open connection carries the camera track of the local stream on
  its video sender: starting screen sharing puts the new screen track on that sender
  with the two calls getDisplayMedia and replaceTrack and no signaling message; when
  the user stops sharing, or when the capture ends, the sender carries the camera track
  again and the screen-sharing flag is cleared. The remote stream plays no part, so the
  statement holds for an active call in particular.
\<close>

theorem screen_share_round_trip:
  assumes "reachable pg"
    and "localStream (get_modal VideoModal pg) = Some s"
    and "peerConnection (get_modal VideoModal pg) = Some p"
    and "\<not> closed (conns (env pg) ! p)"
    and "\<not> isScreenSharing (get_modal VideoModal pg)"
    and "pendingScreen (get_modal VideoModal pg) = []"
    and "first_video_track (env pg) (Some s) = Some cam"
    and "find_video_sender (env pg) (Some p) = Some (p, i)"
    and "senders (conns (env pg) ! p) ! i = Some cam"
  shows "let v = length (tracks (env pg));
             pg1 = step (ScreenSettled VideoModal Granted) (step (ClickScreenShare VideoModal) pg);
             pg2 = step (ClickScreenShare VideoModal) pg1;
             pg3 = step (ScreenCaptureEnded v) pg1
         in senders (conns (env pg1) ! p) ! i = Some v \<and>
            kind (tracks (env pg1) ! v) = Video \<and> source (tracks (env pg1) ! v) = Screen \<and>
            isScreenSharing (get_modal VideoModal pg1) \<and>
            new_effects pg pg1 = [GetDisplayMedia, ReplaceTrack (p, i) v] \<and>
            senders (conns (env pg2) ! p) ! i = Some cam \<and>
            \<not> isScreenSharing (get_modal VideoModal pg2) \<and>
            new_effects pg1 pg2 = [ReplaceTrack (p, i) cam] \<and>
            senders (conns (env pg3) ! p) ! i = Some cam \<and>
            \<not> isScreenSharing (get_modal VideoModal pg3) \<and>
            new_effects pg1 pg3 = [ReplaceTrack (p, i) cam]"
proof -
  let ?m = "get_modal VideoModal pg" and ?w = "env pg"
  let ?v = "length (tracks ?w)"
  let ?c = "closure_of ?m"
  have wok: "world_ok ?w" using assms(1) by (rule reachable_world_ok)
  have vc: "isVideoCall ?m" using reachable_isVideoCall [OF assms(1), of VideoModal] by simp
  from find_video_sender_Some [OF assms(8)]
  have pb: "p < length (conns ?w)" and ib: "i < length (senders (conns ?w ! p))"
    by simp_all
  have sb: "\<forall>x \<in> set s. x < length (tracks ?w)"
    using reachable_stream_ok [OF assms(1,2)] by (simp add: stream_ok_def)
  \<comment> \<open>the click: getDisplayMedia is called\<close>
  let ?pgc = "step (ClickScreenShare VideoModal) pg"
  let ?mc = "?m\<lparr>pendingScreen := [?c]\<rparr>"
  let ?wc = "emit [GetDisplayMedia] ?w"
  have pgc: "?pgc = put VideoModal (?mc, ?wc) pg"
    using vc assms(5,6) by (simp add: step_def on_modal_def toggleScreenShare_begin_def)
  \<comment> \<open>the promise is fulfilled\<close>
  let ?pg1 = "step (ScreenSettled VideoModal Granted) ?pgc"
  let ?wd = "snd (display_media ?wc)"
  let ?w2 = "replaceTrack (p, i) ?v ?wd"
  let ?w3 = "?w2\<lparr>tracks := (tracks ?w2)[?v := (tracks ?w2 ! ?v)\<lparr>onended := Some (RevertToCamera VideoModal (Some (p, i)) (Some s))\<rparr>]\<rparr>"
  let ?m1 = "?m\<lparr>pendingScreen := [], isScreenSharing := True\<rparr>"
  have kd: "keeps ?w ?wd" by (intro keeps_intros keeps_refl)
  have fd: "find_video_sender ?wd (Some p) = Some (p, i)"
    using find_video_sender_keeps [OF _ kd pb] wok assms(8) by (simp add: world_ok_def)
  have pg1: "?pg1 = put VideoModal (?m1, ?w3) ?pgc"
    using fd assms(2,3)
    by (subst step_def)
      (simp add: pgc on_modal_def toggleScreenShare_resume_granted Let_def closure_of_def)
  have s1: "senders (conns ?w3 ! p) = (senders (conns ?w ! p))[i := Some ?v]"
    using pb assms(4) by (simp add: replaceTrack_senders)
  have t1: "trace ?w3 = trace ?w @ [GetDisplayMedia, ReplaceTrack (p, i) ?v]"
    by simp
  have tv: "tracks ?w3 ! ?v = (new_track Video Screen)\<lparr>onended := Some (RevertToCamera VideoModal (Some (p, i)) (Some s))\<rparr>"
    by simp
  have k3: "keeps ?w ?w3" by (intro keeps_intros keeps_refl) simp
  have v3: "is_video ?w3 (Some ?v)"
    by (simp add: is_video_Some new_track_def)
  have c3: "first_video_track ?w3 (Some s) = Some cam"
    using first_video_track_keeps [OF k3 sb] assms(7) by simp
  have f2: "find_video_sender ?w2 (Some p) = Some (p, i)"
    using fd by (rule find_video_sender_replaced) (simp add: is_video_Some new_track_def)
  have f3: "find_video_sender ?w3 (Some p) = Some (p, i)"
  proof -
    have "is_video ?w3 = is_video ?w2"
      by (rule ext) (auto simp add: is_video_def track_kind_def nth_append new_track_def split: option.splits)
    then have "find_video_sender ?w3 (Some p) = find_video_sender ?w2 (Some p)"
      by (rule find_video_sender_cong) simp
    with f2 show ?thesis by (simp only:)
  qed
  have cl3: "\<not> closed (conns ?w3 ! p)" "p < length (conns ?w3)"
    using assms(4) pb by simp_all
  \<comment> \<open>the user stops sharing\<close>
  let ?pg2 = "step (ClickScreenShare VideoModal) ?pg1"
  have pg2: "?pg2 = put VideoModal (?m1\<lparr>isScreenSharing := False\<rparr>, replaceTrack (p, i) cam ?w3) ?pg1"
    using vc assms(2,3) c3 f3
    by (subst step_def) (simp add: pg1 on_modal_def toggleScreenShare_begin_def Let_def)
  \<comment> \<open>or the capture ends\<close>
  let ?pg3 = "step (ScreenCaptureEnded ?v) ?pg1"
  let ?w4 = "?w3\<lparr>tracks := (tracks ?w3)[?v := (tracks ?w3 ! ?v)\<lparr>ended := True\<rparr>]\<rparr>"
  have k4: "keeps ?w ?w4" using k3 by (rule keeps_track_update) simp
  have c4: "first_video_track ?w4 (Some s) = Some cam"
    using first_video_track_keeps [OF k4 sb] assms(7) by simp
  have pg3: "?pg3 = put VideoModal (?m1\<lparr>isScreenSharing := False\<rparr>, replaceTrack (p, i) cam ?w4) (?pg1\<lparr>env := ?w4\<rparr>)"
    using c4
    by (subst step_def)
      (simp add: pg1 new_track_def on_modal_def screen_ended_def Let_def get_modal_def put_def)
  have r2: "senders (conns (replaceTrack (p, i) cam ?w3) ! p) ! i = Some cam"
    using cl3 ib pb assms(4) by (simp add: replaceTrack_senders)
  have r3: "senders (conns (replaceTrack (p, i) cam ?w4) ! p) ! i = Some cam"
    using cl3 ib pb assms(4) by (simp add: replaceTrack_senders)
  have n1: "new_effects pg ?pg1 = [GetDisplayMedia, ReplaceTrack (p, i) ?v]"
    by (rule new_effects_append) (simp add: pg1)
  have n2: "new_effects ?pg1 ?pg2 = [ReplaceTrack (p, i) cam]"
    by (rule new_effects_append) (simp add: pg2, simp add: pg1)
  have n3: "new_effects ?pg1 ?pg3 = [ReplaceTrack (p, i) cam]"
    by (rule new_effects_append) (simp add: pg3, simp add: pg1)
  have a1: "senders (conns (env ?pg1) ! p) ! i = Some ?v"
    using ib pb assms(4) by (simp add: pg1 replaceTrack_senders)
  have a2: "kind (tracks (env ?pg1) ! ?v) = Video \<and> source (tracks (env ?pg1) ! ?v) = Screen \<and>
      isScreenSharing (get_modal VideoModal ?pg1)"
    by (simp add: pg1 new_track_def)
  have a3: "senders (conns (env ?pg2) ! p) ! i = Some cam \<and> \<not> isScreenSharing (get_modal VideoModal ?pg2)"
    using r2 by (simp add: pg2)
  have a4: "senders (conns (env ?pg3) ! p) ! i = Some cam \<and> \<not> isScreenSharing (get_modal VideoModal ?pg3)"
    using r3 by (simp add: pg3)
  from a1 a2 a3 a4 n1 n2 n3 show ?thesis
    by (simp add: Let_def)
qed

theorem screen_share_round_trip_witness:
  "reachable active_page \<and>
   localStream (get_modal VideoModal active_page) = Some [0, 1] \<and>
   peerConnection (get_modal VideoModal active_page) = Some 0 \<and>
   \<not> closed (conns (env active_page) ! 0) \<and>
   \<not> isScreenSharing (get_modal VideoModal active_page) \<and>
   pendingScreen (get_modal VideoModal active_page) = [] \<and>
   first_video_track (env active_page) (Some [0, 1]) = Some 1 \<and>
   find_video_sender (env active_page) (Some 0) = Some (0, 1) \<and>
   senders (conns (env active_page) ! 0) ! 1 = Some 1 \<and>
   senders (conns (env sharing_page) ! 0) ! 1 = Some 2 \<and>
   source (tracks (env sharing_page) ! 2) = Screen \<and>
   isScreenSharing (get_modal VideoModal sharing_page) \<and>
   new_effects active_page sharing_page = [GetDisplayMedia, ReplaceTrack (0, 1) 2] \<and>
   senders (conns (env (step (ClickScreenShare VideoModal) sharing_page)) ! 0) ! 1 = Some 1 \<and>
   \<not> isScreenSharing (get_modal VideoModal (step (ClickScreenShare VideoModal) sharing_page)) \<and>
   senders (conns (env (step (ScreenCaptureEnded 2) sharing_page)) ! 0) ! 1 = Some 1 \<and>
   \<not> isScreenSharing (get_modal VideoModal (step (ScreenCaptureEnded 2) sharing_page))"
proof -
  have s: "sharing_page = step (ScreenSettled VideoModal Granted) (step (ClickScreenShare VideoModal) active_page)"
    by (simp add: sharing_page_def)
  from screen_share_round_trip [OF reachable_scenarios(3) active_page_facts(1-8)]
    reachable_scenarios(3) active_page_facts
  show ?thesis
    by (simp add: Let_def s [symmetric])
qed

subsection \<open>C8: one session holding the capture device\<close>

text \<open>
  C8, as stated, fails: after a video call and an audio call have been started one after
  the other, both instances hold a local stream whose tracks are all live; nothing was
  released when the second call acquired its media.
\<close>

theorem two_sessions_hold_capture:
  "reachable two_calls_page \<and>
   holds_capture (videoModal two_calls_page) (env two_calls_page) \<and>
   holds_capture (audioModal two_calls_page) (env two_calls_page) \<and>
   localStream (videoModal two_calls_page) = Some [0, 1] \<and>
   localStream (audioModal two_calls_page) = Some [2] \<and>
   live (env two_calls_page) 0 \<and> live (env two_calls_page) 1 \<and> live (env two_calls_page) 2"
  by (simp add: reachable_scenarios)
    (simp add: two_calls_page_value holds_capture_def live_def init_modal_def new_track_def)

text \<open>
  C8, amended. The page has two instances of the call component, one for video and one
  for audio calls, each with a state of its own holding at most one local stream.
  Starting a call on one instance, that is opening it and the settling of its media
  request, leaves the state of the other instance as it was and stops none of the
  tracks of the other instance's local stream: the other instance holds the capture
  device afterwards exactly if it held it before.
\<close>

theorem sessions_independent:
  assumes "reachable pg" and "tg' \<noteq> tg"
  shows "get_modal tg' (step (ClickCall tg) pg) = get_modal tg' pg \<and>
         get_modal tg' (step (MediaSettled tg out) pg) = get_modal tg' pg \<and>
         holds_capture (get_modal tg' pg) (env (step (ClickCall tg) pg)) =
           holds_capture (get_modal tg' pg) (env pg) \<and>
         holds_capture (get_modal tg' pg) (env (step (MediaSettled tg out) pg)) =
           holds_capture (get_modal tg' pg) (env pg)"
proof (intro conjI)
  let ?m = "get_modal tg pg" and ?w = "env pg"
  show "get_modal tg' (step (ClickCall tg) pg) = get_modal tg' pg"
    using assms(2) by (simp add: step_def get_modal_on_modal_other)
  show "get_modal tg' (step (MediaSettled tg out) pg) = get_modal tg' pg"
    using assms(2) by (simp add: step_def get_modal_on_modal_other split: list.splits)
  have b: "x < length (tracks ?w)" if "localStream (get_modal tg' pg) = Some s" "x \<in> set s" for s x
    using reachable_stream_ok [OF assms(1) that(1)] that(2) by (simp add: stream_ok_def)
  have a: "own ?m \<inter> own (get_modal tg' pg) = {}"
    using assms by (rule reachable_own_apart)
  show "holds_capture (get_modal tg' pg) (env (step (ClickCall tg) pg)) = holds_capture (get_modal tg' pg) ?w"
  proof (rule holds_capture_cong)
    fix s x
    assume s: "localStream (get_modal tg' pg) = Some s" and x: "x \<in> set s"
    then have "x \<in> own (get_modal tg' pg)" by (simp add: own_def)
    with a have "x \<notin> own ?m" by blast
    then have "\<not> (\<exists>d. c_localStream (effectCleanup ?m) = Some d \<and> x \<in> set d)"
      by (auto simp add: own_def)
    then show "live (env (step (ClickCall tg) pg)) x = live ?w x"
      by (auto simp add: step_def on_modal_def live_def ended_set_isOpen)
  qed
  show "holds_capture (get_modal tg' pg) (env (step (MediaSettled tg out) pg)) = holds_capture (get_modal tg' pg) ?w"
  proof (rule holds_capture_cong)
    fix s x
    assume "localStream (get_modal tg' pg) = Some s" and "x \<in> set s"
    then have "x < length (tracks ?w)" by (rule b)
    then show "live (env (step (MediaSettled tg out) pg)) x = live ?w x"
      by (simp add: step_def on_modal_def live_initializeCall_resume split: list.splits)
  qed
qed

theorem sessions_independent_witness:
  "reachable call_page \<and> VideoModal \<noteq> AudioModal \<and>
   holds_capture (get_modal VideoModal call_page) (env call_page) \<and>
   get_modal VideoModal (step (ClickCall AudioModal) call_page) = get_modal VideoModal call_page \<and>
   holds_capture (get_modal VideoModal call_page) (env (step (ClickCall AudioModal) call_page)) \<and>
   reachable (step (ClickCall AudioModal) call_page) \<and>
   get_modal VideoModal (step (MediaSettled AudioModal Granted) (step (ClickCall AudioModal) call_page)) =
     get_modal VideoModal call_page \<and>
   holds_capture (get_modal VideoModal call_page)
     (env (step (MediaSettled AudioModal Granted) (step (ClickCall AudioModal) call_page)))"
proof -
  let ?pg = "step (ClickCall AudioModal) call_page"
  have r: "reachable call_page" by (rule reachable_scenarios)
  have r1: "reachable ?pg" using r by (rule reachable_step)
  have n: "VideoModal \<noteq> AudioModal" by simp
  have h: "holds_capture (get_modal VideoModal call_page) (env call_page)"
    by (simp add: call_page_value holds_capture_def live_def get_modal_def init_modal_def new_track_def)
  note a = sessions_independent [OF r n, of Granted]
  note b = sessions_independent [OF r1 n, of Granted]
  from a b h r r1 show ?thesis by simp
qed

end
